theory Spec2Isabelle
  imports Complex_Main "HOL-Library.Word"
begin

section \<open>Data model\<close>

text \<open>
  The codec of \<^verbatim>\<open>src/libs/qCC_io/SinusxFilter.cpp\<close>: \<^verbatim>\<open>SinusxFilter::loadFile\<close> (the reader),
  \<^verbatim>\<open>SinusxFilter::saveToFile\<close> (the writer) and \<^verbatim>\<open>MakeSinusxName\<close>.

  Conventions of the embedding.
  \<^item> A \<^verbatim>\<open>QString\<close> is a \<^typ>\<open>string\<close>; the text stream is the list of its lines (without
    line terminators). \<^verbatim>\<open>QTextStream::readLine\<close> returns the next line, and a null (hence
    empty) string once the stream is exhausted.
  \<^item> \<^verbatim>\<open>double\<close> and \<^verbatim>\<open>PointCoordinateType\<close> values are \<^typ>\<open>real\<close> numbers; infinities and
    NaN are outside the model. The one place where the reader turns a \<^verbatim>\<open>double\<close> into a
    \<^verbatim>\<open>PointCoordinateType\<close> (line 419, \<^verbatim>\<open>CCVector3::fromArray((Pd+Pshift).u)\<close>) applies the
    function \<open>fromDouble\<close> of the platform to each coordinate of the sum: it stands for the
    rounding of the sum and for the narrowing to \<^verbatim>\<open>float\<close> when \<^verbatim>\<open>PointCoordinateType\<close> is
    \<^verbatim>\<open>float\<close>.
  \<^item> \<^verbatim>\<open>unsigned lineNumber\<close> is a 32-bit word; \<^verbatim>\<open>int skipped\<close> is an \<^typ>\<open>int\<close> (it stays far
    below the 32-bit range unless one line holds billions of tokens).
  \<^item> \<^verbatim>\<open>assert\<close> is active when the field \<open>assertions\<close> of the platform is true (a build
    without \<^verbatim>\<open>NDEBUG\<close>) and compiled out otherwise. A failed assertion aborts the process:
    the reader stops there and its result has \<open>aborted\<close> set. The assertions of lines 333 and
    339 are branches of \<open>cpCase1\<close>; \<^verbatim>\<open>assert(currentVertices)\<close> of line 381 cannot fail, since
    \<^verbatim>\<open>currentVertices\<close> and \<^verbatim>\<open>currentPoly\<close> are set and cleared together.
  \<^item> Everything the codec calls but does not define (Qt's tokenizer character class and number
    parsers, \<^verbatim>\<open>HandleGlobalShift\<close>, the allocator behind \<^verbatim>\<open>reserve\<close>, \<^verbatim>\<open>resize\<close> and
    \<^verbatim>\<open>addPointIndex\<close>, the file device) is a field of the record \<open>collaborators\<close>; the
    theorems hold for every value of it.
\<close>

datatype CC_FILE_ERROR =
    CC_FERR_NO_ERROR
  | CC_FERR_BAD_ARGUMENT
  | CC_FERR_WRITING
  | CC_FERR_READING
  | CC_FERR_NO_SAVE
  | CC_FERR_NO_LOAD
  | CC_FERR_MALFORMED_FILE
  | CC_FERR_NOT_ENOUGH_MEMORY

datatype CurveType = INVALID | CUREV_S | CURVE_P | CURVE_N | CURVE_C

fun SHORTCUT :: "CurveType \<Rightarrow> char" where
  "SHORTCUT CUREV_S = CHR ''S''"
| "SHORTCUT CURVE_P = CHR ''P''"
| "SHORTCUT CURVE_N = CHR ''N''"
| "SHORTCUT CURVE_C = CHR ''C''"

type_synonym CCVector3d = "real \<times> real \<times> real"

definition vadd :: "CCVector3d \<Rightarrow> CCVector3d \<Rightarrow> CCVector3d" where
  "vadd P Q = (case P of (px, py, pz) \<Rightarrow> case Q of (qx, qy, qz) \<Rightarrow> (px + qx, py + qy, pz + qz))"

definition vsub :: "CCVector3d \<Rightarrow> CCVector3d \<Rightarrow> CCVector3d" where
  "vsub P Q = (case P of (px, py, pz) \<Rightarrow> case Q of (qx, qy, qz) \<Rightarrow> (px - qx, py - qy, pz - qz))"

datatype QVariant = QVariant_int int | QVariant_double real

text \<open>The vertex cloud of a polyline (\<^verbatim>\<open>ccPointCloud\<close>): its points, the capacity reserved for
  them and the enabled flag.\<close>

record ccPointCloud =
  points :: "CCVector3d list"
  capacity :: nat
  isEnabled :: bool

text \<open>A polyline (\<^verbatim>\<open>ccPolyline\<close>): a reference cloud over its vertices. \<open>indexes\<close> are the point
  indexes added by \<^verbatim>\<open>addPointIndex\<close>; \<^verbatim>\<open>size()\<close> is their number and \<^verbatim>\<open>getPoint(j)\<close> is the
  vertex at the \<open>j\<close>-th index. The meta-data map is restricted to the two keys the codec uses.\<close>

record ccPolyline =
  name :: string
  vertices :: ccPointCloud
  indexes :: "nat list"
  isClosed :: bool
  isVisible :: bool
  is2DMode :: bool
  globalShift :: CCVector3d
  metaUpDir :: "QVariant option"
  metaConstAltitude :: "QVariant option"

text \<open>The messages sent to \<^verbatim>\<open>ccLog::Warning\<close> by the reader, one constructor per call site.\<close>

datatype diagnostic =
    LineCorrupted "32 word"
  | UnhandledCurveType char "32 word"
  | CorruptedFlags "32 word"
  | CorruptedConstAltitude "32 word"
  | CorruptedBasePlane "32 word"
  | CorruptedVertex "32 word"
  | Recentered CCVector3d

fun is_corruption :: "diagnostic \<Rightarrow> bool" where
  "is_corruption (Recentered sh) = False"
| "is_corruption d = True"

record collaborators =
  file_open :: bool
    \<comment> \<open>\<^verbatim>\<open>file.open(QFile::ReadOnly)\<close> succeeds\<close>
  file_error :: "nat \<Rightarrow> bool"
    \<comment> \<open>\<^verbatim>\<open>file.error() != QFile::NoError\<close> after that many \<^verbatim>\<open>readLine\<close> calls\<close>
  isSpace :: "char \<Rightarrow> bool"
    \<comment> \<open>the character class \<^verbatim>\<open>\s\<close> of \<^verbatim>\<open>QRegExp\<close>\<close>
  toInt :: "string \<Rightarrow> int option"
    \<comment> \<open>\<^verbatim>\<open>QString::toInt(&ok)\<close>: \<open>None\<close> when \<open>ok\<close> is false\<close>
  toDouble :: "string \<Rightarrow> real option"
    \<comment> \<open>\<^verbatim>\<open>QString::toDouble(&ok)\<close>: \<open>None\<close> when \<open>ok\<close> is false\<close>
  HandleGlobalShift :: "CCVector3d \<Rightarrow> CCVector3d \<Rightarrow> bool \<times> CCVector3d"
    \<comment> \<open>\<^verbatim>\<open>HandleGlobalShift(Pd, Pshift, parameters)\<close>: the returned flag and the value left in
        the reference parameter \<^verbatim>\<open>Pshift\<close>\<close>
  reserve :: "nat \<Rightarrow> nat \<Rightarrow> nat \<Rightarrow> nat option"
    \<comment> \<open>\<^verbatim>\<open>currentVertices->reserve(n)\<close> after that many reads, at the given capacity:
        \<open>None\<close> when the allocation fails, else the new capacity\<close>
  resize :: "nat \<Rightarrow> nat \<Rightarrow> nat \<Rightarrow> nat option"
    \<comment> \<open>\<^verbatim>\<open>currentVertices->resize(n)\<close>, likewise\<close>
  addPointIndex :: "nat \<Rightarrow> nat \<Rightarrow> bool"
    \<comment> \<open>\<^verbatim>\<open>currentPoly->addPointIndex(0, n)\<close> after that many reads succeeds\<close>
  fromDouble :: "real \<Rightarrow> real"
    \<comment> \<open>the \<^verbatim>\<open>PointCoordinateType\<close> that \<^verbatim>\<open>CCVector3::fromArray\<close> makes of a \<^verbatim>\<open>double\<close>\<close>
  assertions :: bool
    \<comment> \<open>\<^verbatim>\<open>assert\<close> is active (\<^verbatim>\<open>NDEBUG\<close> is not defined)\<close>

section \<open>String helpers\<close>

definition startsWith :: "string \<Rightarrow> string \<Rightarrow> bool" where
  "startsWith s p = (take (length p) s = p)"

text \<open>\<^verbatim>\<open>split(QRegExp("\\s+"), QString::SkipEmptyParts)\<close>: the maximal runs of non-space
  characters, in order. \<open>cur\<close> is the run being read.\<close>

fun split_run :: "(char \<Rightarrow> bool) \<Rightarrow> string \<Rightarrow> string \<Rightarrow> string list" where
  "split_run sp cur [] = (if cur = [] then [] else [cur])"
| "split_run sp cur (c # cs) =
     (if sp c then (if cur = [] then [] else [cur]) @ split_run sp [] cs
      else split_run sp (cur @ [c]) cs)"

definition split :: "(char \<Rightarrow> bool) \<Rightarrow> string \<Rightarrow> string list" where
  "split sp s = split_run sp [] s"

text \<open>\<^verbatim>\<open>MakeSinusxName\<close>: \<^verbatim>\<open>name.replace(' ','_')\<close>.\<close>

definition MakeSinusxName :: "string \<Rightarrow> string" where
  "MakeSinusxName nm = map (\<lambda>c. if c = CHR '' '' then CHR ''_'' else c) nm"

section \<open>The reader: \<^verbatim>\<open>SinusxFilter::loadFile\<close>\<close>

record load_state =
  stream :: "string list"
  streamPos :: nat
  currentLine :: string
  currentPoly :: "ccPolyline option"
  lineNumber :: "32 word"
  curveType :: CurveType
  cpIndex :: nat
  result :: CC_FILE_ERROR
  Pshift :: CCVector3d
  firstVertex :: bool
  container :: "ccPolyline list"
  warnings :: "diagnostic list"

text \<open>\<open>stream\<close> holds the lines not read yet and \<open>streamPos\<close> counts the \<^verbatim>\<open>readLine\<close> calls made;
  \<open>container\<close> is the children of the output \<^verbatim>\<open>ccHObject\<close> in the order of \<^verbatim>\<open>addChild\<close>;
  \<open>warnings\<close> is the log. \<^verbatim>\<open>currentVertices\<close> is the \<open>vertices\<close> of \<open>currentPoly\<close>: the two
  pointers are set and cleared together.\<close>

text \<open>What a call of the reader leaves: the status returned, the children of the output
  container and the log. When \<open>aborted\<close> is set a failed assertion has terminated the process
  instead: nothing is returned, and the other fields hold the values of \<^verbatim>\<open>result\<close>, of the
  container and of the log at that moment.\<close>

record load_result =
  status :: CC_FILE_ERROR
  children :: "ccPolyline list"
  messages :: "diagnostic list"
  aborted :: bool

text \<open>The outcome of one pass through the body of the main loop: the function is left
  (\<open>Return\<close>), or the loop goes on.\<close>

datatype step_result = Return load_result | Continue load_state

text \<open>A failed \<^verbatim>\<open>assert\<close>.\<close>

definition assert_failed :: "load_state \<Rightarrow> step_result" where
  "assert_failed st =
     Return \<lparr>status = result st, children = container st, messages = warnings st,
             aborted = True\<rparr>"

definition readLine :: "load_state \<Rightarrow> load_state" where
  "readLine st =
     (case stream st of
        [] \<Rightarrow> st\<lparr>streamPos := Suc (streamPos st), currentLine := []\<rparr>
      | l # ls \<Rightarrow> st\<lparr>stream := ls, streamPos := Suc (streamPos st), currentLine := l\<rparr>)"

definition warn :: "load_state \<Rightarrow> diagnostic \<Rightarrow> load_state" where
  "warn st d = st\<lparr>warnings := warnings st @ [d]\<rparr>"

text \<open>The recurring triple \<^verbatim>\<open>ccLog::Warning(...); result = CC_FERR_MALFORMED_FILE; continue;\<close>.\<close>

definition malformed :: "load_state \<Rightarrow> diagnostic \<Rightarrow> load_state" where
  "malformed st d = (warn st d)\<lparr>result := CC_FERR_MALFORMED_FILE\<rparr>"

text \<open>Modelled from the spec: the constructors \<^verbatim>\<open>ccPointCloud("vertices")\<close> and
  \<^verbatim>\<open>ccPolyline(currentVertices)\<close> are not under src/. A polyline is constructed empty, with a
  default name, open, visible, not 2D, without shift; lines 238-239 of the source then attach
  the cloud and disable it.\<close>

definition new_block_polyline :: ccPolyline where
  "new_block_polyline =
     \<lparr>name = ''Polyline'',
      vertices = \<lparr>points = [], capacity = 0, isEnabled = False\<rparr>,
      indexes = [],
      isClosed = False,
      isVisible = True,
      is2DMode = False,
      globalShift = (0, 0, 0),
      metaUpDir = None,
      metaConstAltitude = None\<rparr>"

text \<open>The condition of lines 189-192 and 437-440:
  \<^verbatim>\<open>currentVertices && currentVertices->size() != 0 && currentVertices->resize(size) &&
  currentPoly->addPointIndex(0, size)\<close>, with its effects on the polyline; \<open>None\<close> when it is
  false.\<close>

definition finalized :: "collaborators \<Rightarrow> nat \<Rightarrow> ccPolyline \<Rightarrow> ccPolyline option" where
  "finalized env pos p =
     (let n = length (points (vertices p)) in
      if n \<noteq> 0 then
        (case resize env pos (capacity (vertices p)) n of
           None \<Rightarrow> None
         | Some cap \<Rightarrow>
             if addPointIndex env pos n
             then Some (p\<lparr>vertices := (vertices p)\<lparr>capacity := cap\<rparr>,
                          indexes := indexes p @ [0..<n]\<rparr>)
             else None)
      else None)"

text \<open>Lines 187-203: closing the open block when a block header is read.\<close>

definition closeBlock :: "collaborators \<Rightarrow> load_state \<Rightarrow> load_state" where
  "closeBlock env st =
     (case currentPoly st of
        None \<Rightarrow> st
      | Some p \<Rightarrow>
          (case finalized env (streamPos st) p of
             Some q \<Rightarrow> st\<lparr>container := container st @ [q], currentPoly := None\<rparr>
           | None \<Rightarrow> st\<lparr>currentPoly := None\<rparr>))"

definition curveTypeOf :: "char \<Rightarrow> CurveType" where
  "curveTypeOf c =
     (if c = SHORTCUT CUREV_S then CUREV_S
      else if c = SHORTCUT CURVE_P then CURVE_P
      else if c = SHORTCUT CURVE_N then CURVE_N
      else if c = SHORTCUT CURVE_C then CURVE_C
      else INVALID)"

text \<open>Lines 184-241: a line starting with \<^verbatim>\<open>B\<close>.\<close>

definition onBlockHeader :: "collaborators \<Rightarrow> load_state \<Rightarrow> load_state" where
  "onBlockHeader env st0 =
     (let st = closeBlock env st0;
          tokens = split (isSpace env) (currentLine st)
      in if length tokens < 2 \<or> length (tokens ! 1) > 1
         then malformed st (LineCorrupted (lineNumber st))
         else
           (let curveTypeChar = (tokens ! 1) ! 0;
                st1 = st\<lparr>curveType := curveTypeOf curveTypeChar\<rparr>
            in if curveType st1 = INVALID
               then malformed st1 (UnhandledCurveType curveTypeChar (lineNumber st1))
               else st1\<lparr>currentPoly := Some new_block_polyline, cpIndex := 0\<rparr>))"

text \<open>Lines 258-288: the first \<^verbatim>\<open>CP\<close> line of a block.\<close>

definition cpCase0 :: "collaborators \<Rightarrow> load_state \<Rightarrow> ccPolyline \<Rightarrow> string list \<Rightarrow> load_state" where
  "cpCase0 env st p tokens =
     (if length tokens = 3 then
        (case (toInt env (tokens ! 1), toInt env (tokens ! 2)) of
           (Some isConnected, Some closedFlag) \<Rightarrow>
             (let p1 = (if isConnected = 0
                        then p\<lparr>isVisible := False, vertices := (vertices p)\<lparr>isEnabled := True\<rparr>\<rparr>
                        else p);
                  p2 = p1\<lparr>isClosed := (closedFlag \<noteq> 0)\<rparr>
              in st\<lparr>currentPoly := Some p2, cpIndex := cpIndex st + 1\<rparr>)
         | _ \<Rightarrow> malformed st (CorruptedFlags (lineNumber st)))
      else malformed st (CorruptedFlags (lineNumber st)))"

text \<open>Lines 345-372: the base-plane line.\<close>

definition cpCase2 :: "collaborators \<Rightarrow> load_state \<Rightarrow> ccPolyline \<Rightarrow> string list \<Rightarrow> load_state" where
  "cpCase2 env st p tokens =
     (if length tokens = 2 then
        (let basePlaneChar = (tokens ! 1) ! 0;
             vertDir = (if basePlaneChar = CHR ''0'' then Some (2::int)
                        else if basePlaneChar = CHR ''1'' then Some 0
                        else if basePlaneChar = CHR ''2'' then Some 1
                        else None)
         in case vertDir of
              Some d \<Rightarrow> st\<lparr>currentPoly := Some (p\<lparr>metaUpDir := Some (QVariant_int d)\<rparr>),
                           cpIndex := cpIndex st + 1\<rparr>
            | None \<Rightarrow> malformed st (CorruptedBasePlane (lineNumber st)))
      else malformed st (CorruptedBasePlane (lineNumber st)))"

text \<open>Lines 326-332: the loop that skips the values of a circle. It reads further lines of the
  stream; each call of \<^verbatim>\<open>readLine\<close> made while the current line is not empty lowers
  \<open>length stream + (0 or 1)\<close>, which is the termination argument.\<close>

definition unread :: "load_state \<Rightarrow> nat" where
  "unread st = length (stream st) + (if currentLine st = [] then 0 else 1)"

function skipValues :: "collaborators \<Rightarrow> load_state \<Rightarrow> int \<Rightarrow> load_state \<times> int" where
  "skipValues env st skipped =
     (if skipped < 16 \<and> currentLine st \<noteq> [] \<and> \<not> file_error env (streamPos st)
      then (let st1 = readLine st;
                st2 = st1\<lparr>lineNumber := lineNumber st1 + 1\<rparr>;
                tokens = split (isSpace env) (currentLine st2)
            in skipValues env st2 (skipped + int (length tokens)))
      else (st, skipped))"
  by pat_completeness auto
termination
  by (relation "measure (\<lambda>(env, st, skipped). unread st)")
     (auto simp: unread_def readLine_def split: list.splits)

declare skipValues.simps [simp del]

text \<open>Lines 290-343: the second \<^verbatim>\<open>CP\<close> line. For \<^verbatim>\<open>CUREV_S\<close> the \<^verbatim>\<open>switch\<close> falls through
  to the base-plane case with the same tokens. For \<^verbatim>\<open>CURVE_C\<close> the values of the circle are
  skipped and line 333 asserts that exactly 16 were counted; line 339 asserts that no other
  curve type gets here.\<close>

definition cpCase1 :: "collaborators \<Rightarrow> load_state \<Rightarrow> ccPolyline \<Rightarrow> string list \<Rightarrow> step_result" where
  "cpCase1 env st p tokens =
     (case curveType st of
        CUREV_S \<Rightarrow> Continue (cpCase2 env (st\<lparr>cpIndex := cpIndex st + 1\<rparr>) p tokens)
      | CURVE_P \<Rightarrow> Continue (st\<lparr>cpIndex := cpIndex st + 1\<rparr>)
      | CURVE_N \<Rightarrow>
          Continue
            (if length tokens = 2 then
               (case toDouble env (tokens ! 1) of
                  Some z \<Rightarrow> st\<lparr>currentPoly := Some (p\<lparr>metaConstAltitude := Some (QVariant_double z)\<rparr>),
                               cpIndex := cpIndex st + 1\<rparr>
                | None \<Rightarrow> malformed st (CorruptedConstAltitude (lineNumber st)))
             else malformed st (CorruptedConstAltitude (lineNumber st)))
      | CURVE_C \<Rightarrow>
          (let (st1, skipped) = skipValues env st (int (length tokens) - 1)
           in if assertions env \<and> skipped \<noteq> 16 then assert_failed st1
              else Continue (st1\<lparr>cpIndex := cpIndex st1 + 1\<rparr>))
      | INVALID \<Rightarrow>
          (if assertions env then assert_failed st
           else Continue (st\<lparr>cpIndex := cpIndex st + 1\<rparr>)))"

text \<open>Lines 252-378: a line starting with \<^verbatim>\<open>CP\<close> inside a block.\<close>

definition onCP :: "collaborators \<Rightarrow> load_state \<Rightarrow> ccPolyline \<Rightarrow> step_result" where
  "onCP env st p =
     (let tokens = split (isSpace env) (currentLine st)
      in if cpIndex st = 0 then Continue (cpCase0 env st p tokens)
         else if cpIndex st = 1 then cpCase1 env st p tokens
         else if cpIndex st = 2 then Continue (cpCase2 env st p tokens)
         else Continue st)"

text \<open>Lines 405-417: the check for big coordinates, made on the first vertex of the load only.
  The branch \<^verbatim>\<open>currentVertices->setGlobalShift(Pshift)\<close> is dead code: the enclosing branch
  runs with \<^verbatim>\<open>currentPoly\<close> set.\<close>

definition firstVertexShift ::
  "collaborators \<Rightarrow> load_state \<Rightarrow> ccPolyline \<Rightarrow> CCVector3d \<Rightarrow> load_state \<times> ccPolyline" where
  "firstVertexShift env st p Pd =
     (if firstVertex st then
        (let (applied, sh) = HandleGlobalShift env Pd (Pshift st);
             st1 = st\<lparr>firstVertex := False, Pshift := sh\<rparr>
         in if applied then (warn st1 (Recentered sh), p\<lparr>globalShift := sh\<rparr>)
            else (st1, p))
      else (st, p))"

text \<open>\<^verbatim>\<open>CCVector3::fromArray\<close> on an array of \<^verbatim>\<open>double\<close>.\<close>

definition fromArray :: "collaborators \<Rightarrow> CCVector3d \<Rightarrow> CCVector3d" where
  "fromArray env P =
     (case P of (x, y, z) \<Rightarrow> (fromDouble env x, fromDouble env y, fromDouble env z))"

text \<open>Lines 379-430: any other non-empty line inside a block is a vertex.\<close>

definition onVertex :: "collaborators \<Rightarrow> load_state \<Rightarrow> ccPolyline \<Rightarrow> step_result" where
  "onVertex env st p =
     (let tokens = split (isSpace env) (currentLine st)
      in if length tokens = 4 then
           (case toDouble env (tokens ! 0) of
              None \<Rightarrow> Continue (malformed st (CorruptedVertex (lineNumber st)))
            | Some x \<Rightarrow>
           (case toDouble env (tokens ! 1) of
              None \<Rightarrow> Continue (malformed st (CorruptedVertex (lineNumber st)))
            | Some y \<Rightarrow>
           (case toDouble env (tokens ! 2) of
              None \<Rightarrow> Continue (malformed st (CorruptedVertex (lineNumber st)))
            | Some z \<Rightarrow>
               (let Pd = (x, y, z);
                    cloud = vertices p
                in case (if length (points cloud) = capacity cloud
                         then reserve env (streamPos st) (capacity cloud) (length (points cloud) + 10)
                         else Some (capacity cloud)) of
                     None \<Rightarrow>
                       Return \<lparr>status = CC_FERR_NOT_ENOUGH_MEMORY,
                               children = container st,
                               messages = warnings st,
                               aborted = False\<rparr>
                   | Some cap \<Rightarrow>
                       (let p1 = p\<lparr>vertices := cloud\<lparr>capacity := cap\<rparr>\<rparr>;
                            (st1, p2) = firstVertexShift env st p1 Pd;
                            p3 = p2\<lparr>vertices := (vertices p2)
                                   \<lparr>points := points (vertices p2)
                                                @ [fromArray env (vadd Pd (Pshift st1))]\<rparr>\<rparr>
                        in Continue (st1\<lparr>currentPoly := Some p3\<rparr>))))))
         else Continue (malformed st (CorruptedVertex (lineNumber st))))"

text \<open>Lines 177-431: the body of the main loop after \<^verbatim>\<open>readLine\<close>.\<close>

definition processLine :: "collaborators \<Rightarrow> load_state \<Rightarrow> step_result" where
  "processLine env st0 =
     (let st = st0\<lparr>lineNumber := lineNumber st0 + 1\<rparr>
      in if startsWith (currentLine st) ''C '' then Continue st
         else if startsWith (currentLine st) ''B'' then Continue (onBlockHeader env st)
         else
           (case currentPoly st of
              None \<Rightarrow> Continue st
            | Some p \<Rightarrow>
                if startsWith (currentLine st) ''CN'' then
                  Continue (if length (currentLine st) > 3
                            then st\<lparr>currentPoly := Some (p\<lparr>name := drop 3 (currentLine st)\<rparr>)\<rparr>
                            else st)
                else if startsWith (currentLine st) ''CP'' then onCP env st p
                else if currentLine st \<noteq> [] then onVertex env st p
                else Continue st))"

text \<open>Lines 434-446: the last polyline, and the returned status.\<close>

definition finish :: "collaborators \<Rightarrow> load_state \<Rightarrow> load_result" where
  "finish env st =
     (let st1 = (case currentPoly st of
                   None \<Rightarrow> st
                 | Some p \<Rightarrow>
                     (case finalized env (streamPos st) p of
                        Some q \<Rightarrow> st\<lparr>container := container st @ [q]\<rparr>
                      | None \<Rightarrow> st))
      in \<lparr>status = result st1, children = container st1, messages = warnings st1,
          aborted = False\<rparr>)"

text \<open>Lines 174-432: the main loop.\<close>

function readLoop :: "collaborators \<Rightarrow> load_state \<Rightarrow> load_result" where
  "readLoop env st =
     (if currentLine st \<noteq> [] \<and> \<not> file_error env (streamPos st)
      then (case processLine env (readLine st) of
              Return r \<Rightarrow> r
            | Continue st1 \<Rightarrow> readLoop env st1)
      else finish env st)"
  by pat_completeness auto
termination
proof (relation "measure (\<lambda>(env, st). unread st)")
  show "wf (measure (\<lambda>(env, st). unread st))" by simp
next
  fix env :: collaborators and st st1 :: load_state
  assume line: "currentLine st \<noteq> [] \<and> \<not> file_error env (streamPos st)"
    and step: "processLine env (readLine st) = Continue st1"
  have skip: "unread (fst (skipValues env s k)) \<le> unread s" for s k
  proof (induction env s k rule: skipValues.induct)
    case (1 env s k)
    show ?case
    proof (cases "k < 16 \<and> currentLine s \<noteq> [] \<and> \<not> file_error env (streamPos s)")
      case True
      have "unread ((readLine s)\<lparr>lineNumber := lineNumber (readLine s) + 1\<rparr>) \<le> unread s"
        using True by (auto simp: unread_def readLine_def split: list.splits)
      with "1.IH" [OF True refl refl refl] True show ?thesis
        by (subst skipValues.simps) (simp add: Let_def)
    next
      case False
      then show ?thesis by (subst skipValues.simps) auto
    qed
  qed
  have read: "unread (readLine st) < unread st"
    using line by (auto simp: unread_def readLine_def split: list.splits)
  have "unread st1 \<le> unread (readLine st)"
  proof -
    let ?s = "(readLine st)\<lparr>lineNumber := lineNumber (readLine st) + 1\<rparr>"
    have keep: "unread ?s = unread (readLine st)" by (simp add: unread_def)
    have c0: "unread (cpCase0 env s p ts) = unread s" for s p ts
      by (auto simp: cpCase0_def unread_def malformed_def warn_def Let_def split: option.splits)
    have c2: "unread (cpCase2 env s p ts) = unread s" for s p ts
      by (auto simp: cpCase2_def unread_def malformed_def warn_def Let_def split: option.splits)
    have c1: "cpCase1 env s p ts = Continue s' \<Longrightarrow> unread s' \<le> unread s" for s p ts s'
    proof (cases "curveType s")
      case CURVE_C
      assume "cpCase1 env s p ts = Continue s'"
      moreover have "unread (fst (skipValues env s (int (length ts) - 1))) \<le> unread s"
        by (rule skip)
      ultimately show ?thesis using CURVE_C
        by (auto simp: cpCase1_def assert_failed_def Let_def unread_def
                 split: prod.splits if_splits)
    next
      case CUREV_S
      assume "cpCase1 env s p ts = Continue s'"
      then show ?thesis using CUREV_S c2 [of "s\<lparr>cpIndex := cpIndex s + 1\<rparr>" p ts]
        by (auto simp: cpCase1_def unread_def)
    qed (auto simp: cpCase1_def assert_failed_def unread_def malformed_def warn_def
              split: option.splits if_splits)
    have cp: "onCP env s p = Continue s' \<Longrightarrow> unread s' \<le> unread s" for s p s'
      using c0 [of s p] c1 [of s p _ s'] c2 [of s p]
      by (auto simp: onCP_def Let_def split: if_splits)
    have bh: "unread (onBlockHeader env s) = unread s" for s
      by (auto simp: onBlockHeader_def closeBlock_def unread_def malformed_def warn_def Let_def
               split: option.splits)
    have vx: "onVertex env s p = Continue s' \<Longrightarrow> unread s' = unread s" for s p s'
      by (auto simp: onVertex_def firstVertexShift_def unread_def malformed_def warn_def Let_def
               split: option.splits if_splits prod.splits)
    have nm: "unread (s\<lparr>currentPoly := q\<rparr>) = unread s" for s q
      by (simp add: unread_def)
    from step have "unread st1 \<le> unread ?s"
      using cp [of ?s _ st1] bh [of ?s] vx [of ?s _ st1]
      by (auto simp: processLine_def Let_def nm split: if_splits option.splits)
    with keep show ?thesis by simp
  qed
  with read show "((env, st1), (env, st)) \<in> measure (\<lambda>(env, st). unread st)" by simp
qed

declare readLoop.simps [simp del]

text \<open>Lines 156-172: opening the file and the initial values of the local variables.
  \<open>children0\<close> is what the output container already holds.\<close>

definition initial_state :: "ccPolyline list \<Rightarrow> string list \<Rightarrow> load_state" where
  "initial_state children0 ls =
     \<lparr>stream = ls,
      streamPos = 0,
      currentLine = ''C'',
      currentPoly = None,
      lineNumber = 0,
      curveType = INVALID,
      cpIndex = 0,
      result = CC_FERR_NO_ERROR,
      Pshift = (0, 0, 0),
      firstVertex = True,
      container = children0,
      warnings = []\<rparr>"

definition loadFile :: "collaborators \<Rightarrow> ccPolyline list \<Rightarrow> string list \<Rightarrow> load_result" where
  "loadFile env children0 ls =
     (if \<not> file_open env
      then \<lparr>status = CC_FERR_READING, children = children0, messages = [], aborted = False\<rparr>
      else readLoop env (initial_state children0 ls))"

section \<open>The writer: \<^verbatim>\<open>SinusxFilter::saveToFile\<close>\<close>

text \<open>The entity handed to the writer: a polyline, a plain group with children, or any other
  kind of object.\<close>

datatype ccHObject = POLY_LINE ccPolyline | HIERARCHY_OBJECT "ccHObject list" | OTHER_OBJECT

text \<open>What is sent to the text stream, in order: a string, an \<^verbatim>\<open>int\<close>, the string returned by
  \<^verbatim>\<open>QString::number(value, format, precision)\<close> (kept as the three arguments of the call), or
  \<^verbatim>\<open>endl\<close>. The notation and precision set on the stream at lines 93-94 apply to floating-point
  values sent to the stream itself; the writer sends none.\<close>

datatype out_item = Text string | IntValue int | QString_number real char nat | Endl

record save_collaborators =
  profiles_alloc :: bool
    \<comment> \<open>no \<^verbatim>\<open>profiles.push_back\<close> throws \<^verbatim>\<open>std::bad_alloc\<close> (it is called once per
        polyline found)\<close>
  file_open_write :: bool
    \<comment> \<open>\<^verbatim>\<open>file.open(QIODevice::WriteOnly | QIODevice::Text)\<close> succeeds\<close>
  variant_toInt :: "QVariant \<Rightarrow> int option"
    \<comment> \<open>\<^verbatim>\<open>QVariant::toInt(&ok)\<close>: \<open>None\<close> when \<open>ok\<close> is false\<close>

record save_result =
  save_status :: CC_FILE_ERROR
  file_text :: "out_item list option"
  skipped_profiles :: "string list"

definition s_precision :: nat where
  "s_precision = 12"

definition u :: "CCVector3d \<Rightarrow> nat \<Rightarrow> real" where
  "u P k = (case P of (x, y, z) \<Rightarrow> if k = 0 then x else if k = 1 then y else z)"

definition getPoint :: "ccPolyline \<Rightarrow> nat \<Rightarrow> CCVector3d" where
  "getPoint poly j = points (vertices poly) ! (indexes poly ! j)"

text \<open>Modelled from the spec: \<^verbatim>\<open>ccShiftedObject::toGlobal3d\<close> is not under src/. The spec has
  the writer "convert to the curve's absolute (global) frame (undoing any local recentering
  shift the in-memory representation holds)"; the reader stores \<open>Pd + Pshift\<close>, so the
  global point is the local one minus the polyline's shift.\<close>

definition toGlobal3d :: "ccPolyline \<Rightarrow> CCVector3d \<Rightarrow> CCVector3d" where
  "toGlobal3d poly P = vsub P (globalShift poly)"

text \<open>Lines 137-140: one coordinate.\<close>

definition writeCoordinate :: "CCVector3d \<Rightarrow> CCVector3d \<Rightarrow> nat \<Rightarrow> out_item list" where
  "writeCoordinate P Pg k =
     [Text '' ''] @ (if u P k \<ge> 0 then [Text ''+''] else [])
       @ [QString_number (u Pg k) (CHR ''E'') s_precision]"

text \<open>Lines 132-142: one vertex line.\<close>

definition writeVertex :: "ccPolyline \<Rightarrow> nat \<Rightarrow> out_item list" where
  "writeVertex poly j =
     (let P = getPoint poly j;
          Pg = toGlobal3d poly P
      in concat (map (writeCoordinate P Pg) [0..<3]) @ [Text '' A'', Endl])"

text \<open>Lines 113-122: the up direction.\<close>

definition upDirOf :: "save_collaborators \<Rightarrow> ccPolyline \<Rightarrow> int" where
  "upDirOf env poly =
     (if is2DMode poly then
        (case metaUpDir poly of
           None \<Rightarrow> 2
         | Some v \<Rightarrow> (case variant_toInt env v of Some d \<Rightarrow> d | None \<Rightarrow> 2))
      else 2)"

text \<open>Lines 124-143: the block of one polyline with at least two vertices.\<close>

definition writeBlock :: "save_collaborators \<Rightarrow> ccPolyline \<Rightarrow> out_item list" where
  "writeBlock env poly =
     (let vertCount = length (indexes poly);
          upDir = upDirOf env poly
      in [Text ''B S'', Endl,
          Text ''CN '', Text (name poly), Endl,
          Text ''CP 1 '', IntValue (if isClosed poly then 1 else 0), Endl,
          Text ''CP '', IntValue (if upDir = 2 then 0 else (if upDir = 1 then 2 else 1)), Endl]
         @ concat (map (writeVertex poly) [0..<vertCount]))"

text \<open>Lines 102-146: the loop over the profiles, threading the result, the text written and
  the names in the warnings.\<close>

fun writeProfiles ::
  "save_collaborators \<Rightarrow> ccPolyline list \<Rightarrow> save_result \<Rightarrow> save_result" where
  "writeProfiles env [] r = r"
| "writeProfiles env (poly # rest) r =
     (if length (indexes poly) < 2
      then writeProfiles env rest (r\<lparr>skipped_profiles := skipped_profiles r @ [name poly]\<rparr>)
      else writeProfiles env rest
             (r\<lparr>save_status := CC_FERR_NO_ERROR,
                file_text := map_option (\<lambda>t. t @ writeBlock env poly) (file_text r)\<rparr>))"

text \<open>Lines 64-76: the polylines looked for.\<close>

fun polylineOf :: "ccHObject \<Rightarrow> ccPolyline list" where
  "polylineOf (POLY_LINE poly) = [poly]"
| "polylineOf other = []"

fun collectProfiles :: "ccHObject \<Rightarrow> ccPolyline list" where
  "collectProfiles (POLY_LINE poly) = [poly]"
| "collectProfiles (HIERARCHY_OBJECT childs) = concat (map polylineOf childs)"
| "collectProfiles OTHER_OBJECT = []"

definition saveToFile ::
  "save_collaborators \<Rightarrow> ccHObject option \<Rightarrow> string \<Rightarrow> save_result" where
  "saveToFile env entity filename =
     (case entity of
        None \<Rightarrow> \<lparr>save_status = CC_FERR_BAD_ARGUMENT, file_text = None, skipped_profiles = []\<rparr>
      | Some e \<Rightarrow>
          if filename = [] then
            \<lparr>save_status = CC_FERR_BAD_ARGUMENT, file_text = None, skipped_profiles = []\<rparr>
          else if collectProfiles e \<noteq> [] \<and> \<not> profiles_alloc env then
            \<lparr>save_status = CC_FERR_NOT_ENOUGH_MEMORY, file_text = None, skipped_profiles = []\<rparr>
          else if collectProfiles e = [] then
            \<lparr>save_status = CC_FERR_NO_SAVE, file_text = None, skipped_profiles = []\<rparr>
          else if \<not> file_open_write env then
            \<lparr>save_status = CC_FERR_WRITING, file_text = None, skipped_profiles = []\<rparr>
          else
            writeProfiles env (collectProfiles e)
              \<lparr>save_status = CC_FERR_NO_SAVE,
               file_text = Some [Text ''C Generated by CloudCompare'', Endl],
               skipped_profiles = []\<rparr>)"

section \<open>A concrete platform for running the codec on sample files\<close>

text \<open>ASCII white space, decimal integer literals with an optional sign (on these
  \<^verbatim>\<open>QString::toInt\<close> and \<^verbatim>\<open>QString::toDouble\<close> return the number written), a device without
  errors, an allocator that never fails and grants what is asked, a shift policy that
  recenters on the first vertex when one of its coordinates reaches \<open>10\<^sup>5\<close> in magnitude, a
  conversion to \<^verbatim>\<open>PointCoordinateType\<close> that keeps the value (as the conversion to \<^verbatim>\<open>float\<close>
  does on the integers below \<open>2\<^sup>2\<^sup>4\<close> in magnitude that the sample files hold), and active
  assertions.\<close>

definition ascii_space :: "char \<Rightarrow> bool" where
  "ascii_space c = (c \<in> set [CHR '' '', CHR 0x09, CHR 0x0A, CHR 0x0B, CHR 0x0C, CHR 0x0D])"

definition digit_of :: "char \<Rightarrow> nat option" where
  "digit_of c =
     (let code = (of_char c :: nat)
      in if 48 \<le> code \<and> code \<le> 57 then Some (code - 48) else None)"

fun digits_value :: "nat \<Rightarrow> string \<Rightarrow> nat option" where
  "digits_value acc [] = Some acc"
| "digits_value acc (c # cs) =
     (case digit_of c of None \<Rightarrow> None | Some d \<Rightarrow> digits_value (10 * acc + d) cs)"

definition decimal_literal :: "string \<Rightarrow> int option" where
  "decimal_literal s =
     (case s of
        [] \<Rightarrow> None
      | c # cs \<Rightarrow>
          if c = CHR ''-'' then (if cs = [] then None else map_option (\<lambda>n. - int n) (digits_value 0 cs))
          else if c = CHR ''+'' then (if cs = [] then None else map_option int (digits_value 0 cs))
          else map_option int (digits_value 0 s))"

definition recenter_big :: "CCVector3d \<Rightarrow> CCVector3d \<Rightarrow> bool \<times> CCVector3d" where
  "recenter_big P S =
     (case P of (x, y, z) \<Rightarrow>
        if \<bar>x\<bar> \<ge> 100000 \<or> \<bar>y\<bar> \<ge> 100000 \<or> \<bar>z\<bar> \<ge> 100000 then (True, (- x, - y, - z))
        else (False, S))"

definition sample_platform :: collaborators where
  "sample_platform =
     \<lparr>file_open = True,
      file_error = (\<lambda>n. False),
      isSpace = ascii_space,
      toInt = decimal_literal,
      toDouble = (\<lambda>s. map_option real_of_int (decimal_literal s)),
      HandleGlobalShift = recenter_big,
      reserve = (\<lambda>pos cap n. Some n),
      resize = (\<lambda>pos cap n. Some n),
      addPointIndex = (\<lambda>pos n. True),
      fromDouble = (\<lambda>x. x),
      assertions = True\<rparr>"

definition sample_save_platform :: save_collaborators where
  "sample_save_platform =
     \<lparr>profiles_alloc = True,
      file_open_write = True,
      variant_toInt = (\<lambda>v. case v of QVariant_int i \<Rightarrow> Some i | QVariant_double d \<Rightarrow> None)\<rparr>"

section \<open>Auxiliary notions for the properties\<close>

text \<open>What closing the open block adds to the container: the finalized polyline, or nothing.\<close>

definition closing :: "collaborators \<Rightarrow> load_state \<Rightarrow> ccPolyline list" where
  "closing env s =
     (case currentPoly s of
        None \<Rightarrow> []
      | Some p \<Rightarrow> (case finalized env (streamPos s) p of None \<Rightarrow> [] | Some q \<Rightarrow> [q]))"

text \<open>The running status says whether a corrupted line has been reported so far.\<close>

definition status_reflects_log :: "load_state \<Rightarrow> bool" where
  "status_reflects_log s \<longleftrightarrow>
     result s = (if \<exists>d \<in> set (warnings s). is_corruption d
                 then CC_FERR_MALFORMED_FILE else CC_FERR_NO_ERROR)"

text \<open>The state at the head of the main loop after \<open>n\<close> iterations, when the loop runs that
  long without returning.\<close>

fun loop_state :: "collaborators \<Rightarrow> nat \<Rightarrow> load_state \<Rightarrow> load_state option" where
  "loop_state env 0 s = Some s"
| "loop_state env (Suc n) s =
     (if currentLine s \<noteq> [] \<and> \<not> file_error env (streamPos s)
      then (case processLine env (readLine s) of
              Return r \<Rightarrow> None
            | Continue s1 \<Rightarrow> loop_state env n s1)
      else None)"

text \<open>At the head of the main loop in state \<open>s\<close>, the next pass calls \<^verbatim>\<open>reserve\<close> and the call
  fails: the loop goes on, the line read is a well-formed vertex line inside a block, the
  vertex accumulator is full, and the allocator refuses the ten more vertices asked for.\<close>

definition reserve_fails :: "collaborators \<Rightarrow> load_state \<Rightarrow> bool" where
  "reserve_fails env s \<longleftrightarrow>
     currentLine s \<noteq> [] \<and> \<not> file_error env (streamPos s) \<and>
     (case stream s of
        [] \<Rightarrow> False
      | l # rest \<Rightarrow>
          (case currentPoly s of
             None \<Rightarrow> False
           | Some p \<Rightarrow>
               \<not> startsWith l ''C '' \<and> \<not> startsWith l ''B'' \<and> \<not> startsWith l ''CN'' \<and>
               \<not> startsWith l ''CP'' \<and>
               length (split (isSpace env) l) = 4 \<and>
               toDouble env (split (isSpace env) l ! 0) \<noteq> None \<and>
               toDouble env (split (isSpace env) l ! 1) \<noteq> None \<and>
               toDouble env (split (isSpace env) l ! 2) \<noteq> None \<and>
               length (points (vertices p)) = capacity (vertices p) \<and>
               reserve env (Suc (streamPos s)) (capacity (vertices p))
                 (length (points (vertices p)) + 10) = None))"

text \<open>The sample platform with an allocator that fails from the fifth read on.\<close>

definition exhausted_platform :: collaborators where
  "exhausted_platform =
     sample_platform\<lparr>reserve := (\<lambda>pos cap n. if pos < 5 then Some n else None)\<rparr>"

text \<open>The formats of \<^verbatim>\<open>QString::number\<close>: \<^verbatim>\<open>'f'\<close> and \<^verbatim>\<open>'F'\<close> give fixed-point notation,
  \<^verbatim>\<open>'e'\<close> and \<^verbatim>\<open>'E'\<close> scientific notation, \<^verbatim>\<open>'g'\<close> and \<^verbatim>\<open>'G'\<close> the more concise of the two.
  An item sent to the stream is in fixed notation when it is not a number in another
  format.\<close>

fun is_fixed_notation :: "out_item \<Rightarrow> bool" where
  "is_fixed_notation (QString_number x fmt prec) = (fmt = CHR ''f'' \<or> fmt = CHR ''F'')"
| "is_fixed_notation item = True"

text \<open>Sample polylines with two vertices: one without shift, one named with a space.\<close>

definition sample_polyline :: ccPolyline where
  "sample_polyline =
     new_block_polyline
       \<lparr>vertices := \<lparr>points = [(1, 2, - 3), (4, 5, 6)], capacity = 2, isEnabled = False\<rparr>,
        indexes := [0, 1]\<rparr>"

definition spaced_polyline :: ccPolyline where
  "spaced_polyline = sample_polyline\<lparr>name := ''my curve''\<rparr>"

text \<open>Applying a change of state to the outcome of a step.\<close>

fun on_state :: "(load_state \<Rightarrow> load_state) \<Rightarrow> step_result \<Rightarrow> step_result" where
  "on_state f (Return r) = Return r"
| "on_state f (Continue s) = Continue (f s)"

text \<open>Two states of the reader on two streams that agree up to a blank line: \<open>a\<close> is \<open>b\<close> with
  a blank line and the lines \<open>post\<close> still to come after the lines of \<open>b\<close>, or both have read
  an empty line and differ in the unread lines only.\<close>

definition cut_at_blank :: "string list \<Rightarrow> load_state \<Rightarrow> load_state \<Rightarrow> bool" where
  "cut_at_blank post a b \<longleftrightarrow>
     a\<lparr>stream := []\<rparr> = b\<lparr>stream := []\<rparr> \<and>
     (stream a = stream b @ [] # post \<or> currentLine b = [])"

text \<open>The step that enters the skipping loop.\<close>

definition skips_values :: "load_state \<Rightarrow> bool" where
  "skips_values s \<longleftrightarrow>
     startsWith (currentLine s) ''CP'' \<and> currentPoly s \<noteq> None \<and> cpIndex s = 1 \<and>
     curveType s = CURVE_C"

text \<open>Notions for the global shift. \<open>translate d p\<close> is the polyline \<open>p\<close> with every stored
  vertex moved by \<open>d\<close>, and \<open>narrowed env p\<close> is \<open>p\<close> with every stored vertex converted to
  \<^verbatim>\<open>PointCoordinateType\<close>. \<open>unshifted env\<close> is the platform \<open>env\<close> with recentering switched
  off: \<^verbatim>\<open>HandleGlobalShift\<close> returns false and leaves \<^verbatim>\<open>Pshift\<close> alone; \<open>exact env\<close> is the
  platform \<open>env\<close> storing coordinates without rounding. A load on \<open>unshifted (exact env)\<close>
  stores the coordinates as they are read. \<open>without_shift sh p\<close> undoes the shift \<open>sh\<close> on a
  polyline and clears its shift record, and \<open>without_shift_state sh c s\<close> does so for the
  open polyline of a reader state, with \<open>c\<close> as the container and without the recentering
  messages; \<open>narrowed_state env c s\<close> converts the vertices of the open polyline, with \<open>c\<close> as
  the container. Both are carried over to the outcome of a step.\<close>

definition translate :: "CCVector3d \<Rightarrow> ccPolyline \<Rightarrow> ccPolyline" where
  "translate d p =
     p\<lparr>vertices := (vertices p)\<lparr>points := map (\<lambda>P. vadd P d) (points (vertices p))\<rparr>\<rparr>"

definition narrowed :: "collaborators \<Rightarrow> ccPolyline \<Rightarrow> ccPolyline" where
  "narrowed env p =
     p\<lparr>vertices := (vertices p)\<lparr>points := map (fromArray env) (points (vertices p))\<rparr>\<rparr>"

definition unshifted :: "collaborators \<Rightarrow> collaborators" where
  "unshifted env = env\<lparr>HandleGlobalShift := (\<lambda>P S. (False, S))\<rparr>"

definition exact :: "collaborators \<Rightarrow> collaborators" where
  "exact env = env\<lparr>fromDouble := (\<lambda>x. x)\<rparr>"

definition without_shift :: "CCVector3d \<Rightarrow> ccPolyline \<Rightarrow> ccPolyline" where
  "without_shift sh p =
     p\<lparr>vertices := (vertices p)\<lparr>points := map (\<lambda>P. vsub P sh) (points (vertices p))\<rparr>,
       globalShift := (0, 0, 0)\<rparr>"

definition without_shift_state ::
  "CCVector3d \<Rightarrow> ccPolyline list \<Rightarrow> load_state \<Rightarrow> load_state" where
  "without_shift_state sh c s =
     s\<lparr>Pshift := (0, 0, 0),
       currentPoly := map_option (without_shift sh) (currentPoly s),
       warnings := filter is_corruption (warnings s),
       container := c\<rparr>"

fun without_shift_step ::
  "CCVector3d \<Rightarrow> ccPolyline list \<Rightarrow> step_result \<Rightarrow> step_result" where
  "without_shift_step sh c (Return r) =
     Return (r\<lparr>children := c, messages := filter is_corruption (messages r)\<rparr>)"
| "without_shift_step sh c (Continue s) = Continue (without_shift_state sh c s)"

definition narrowed_state ::
  "collaborators \<Rightarrow> ccPolyline list \<Rightarrow> load_state \<Rightarrow> load_state" where
  "narrowed_state env c s =
     s\<lparr>currentPoly := map_option (narrowed env) (currentPoly s), container := c\<rparr>"

fun narrowed_step ::
  "collaborators \<Rightarrow> ccPolyline list \<Rightarrow> step_result \<Rightarrow> step_result" where
  "narrowed_step env c (Return r) = Return (r\<lparr>children := c\<rparr>)"
| "narrowed_step env c (Continue s) = Continue (narrowed_state env c s)"

text \<open>The state at the head of the main loop after \<open>n\<close> further iterations none of which
  reads a block header: the open polyline of that state belongs to the block that is open
  in \<open>s\<close>.\<close>

fun block_state :: "collaborators \<Rightarrow> nat \<Rightarrow> load_state \<Rightarrow> load_state option" where
  "block_state env 0 s = Some s"
| "block_state env (Suc n) s =
     (if currentLine s \<noteq> [] \<and> \<not> file_error env (streamPos s) \<and>
         \<not> startsWith (currentLine (readLine s)) ''B''
      then (case processLine env (readLine s) of
              Return r \<Rightarrow> None
            | Continue s1 \<Rightarrow> block_state env n s1)
      else None)"

text \<open>At the head of the main loop in state \<open>s\<close>, the open block is closed now, and the close
  attaches \<open>q\<close>: either the loop goes on and the line read next is a block header, or the
  loop ends and the last polyline is dealt with.\<close>

definition closes_with :: "collaborators \<Rightarrow> load_state \<Rightarrow> ccPolyline \<Rightarrow> bool" where
  "closes_with env s q \<longleftrightarrow>
     (if currentLine s \<noteq> [] \<and> \<not> file_error env (streamPos s)
      then startsWith (currentLine (readLine s)) ''B'' \<and> closing env (readLine s) = [q]
      else closing env s = [q])"

text \<open>The reader before the first vertex of the load: no shift yet, no recentering message,
  and an open polyline (if any) that is empty and carries no shift record.\<close>

definition before_first_vertex :: "load_state \<Rightarrow> bool" where
  "before_first_vertex s \<longleftrightarrow>
     firstVertex s \<and> Pshift s = (0, 0, 0) \<and> list_all is_corruption (warnings s) \<and>
     (case currentPoly s of
        None \<Rightarrow> True
      | Some p \<Rightarrow> points (vertices p) = [] \<and> globalShift p = (0, 0, 0))"

section \<open>Properties of the reader\<close>

text \<open>An invariant rule for the main loop.\<close>

lemma readLoop_rule:
  assumes "I st"
    and step: "\<And>s s'. I s \<Longrightarrow> currentLine s \<noteq> [] \<Longrightarrow> \<not> file_error env (streamPos s) \<Longrightarrow>
                 processLine env (readLine s) = Continue s' \<Longrightarrow> I s'"
    and ret: "\<And>s r. I s \<Longrightarrow> currentLine s \<noteq> [] \<Longrightarrow> \<not> file_error env (streamPos s) \<Longrightarrow>
                 processLine env (readLine s) = Return r \<Longrightarrow> Q r"
    and fin: "\<And>s. I s \<Longrightarrow> Q (finish env s)"
  shows "Q (readLoop env st)"
  using assms
proof (induction env st rule: readLoop.induct)
  case (1 env st)
  show ?case
  proof (cases "currentLine st \<noteq> [] \<and> \<not> file_error env (streamPos st)")
    case False
    then have "readLoop env st = finish env st" by (subst readLoop.simps) auto
    with "1.prems"(1,4) show ?thesis by simp
  next
    case True
    show ?thesis
    proof (cases "processLine env (readLine st)")
      case (Return r)
      with True have "readLoop env st = r" by (subst readLoop.simps) simp
      with "1.prems"(1) "1.prems"(3) [of st r] True Return show ?thesis by simp
    next
      case (Continue s')
      with True have eq: "readLoop env st = readLoop env s'" by (subst readLoop.simps) simp
      have "I s'" using "1.prems"(1) "1.prems"(2) [of st s'] True Continue by simp
      then have "Q (readLoop env s')"
        using "1.IH" [OF True Continue] "1.prems"(2,3,4) by blast
      with eq show ?thesis by simp
    qed
  qed
qed

text \<open>skipValues only moves the reading position.\<close>

lemma skipValues_frame:
  "fst (skipValues env s k) =
     s\<lparr>stream := stream (fst (skipValues env s k)),
       streamPos := streamPos (fst (skipValues env s k)),
       currentLine := currentLine (fst (skipValues env s k)),
       lineNumber := lineNumber (fst (skipValues env s k))\<rparr>"
proof (induction env s k rule: skipValues.induct)
  case (1 env s k)
  show ?case
  proof (cases "k < 16 \<and> currentLine s \<noteq> [] \<and> \<not> file_error env (streamPos s)")
    case False
    then have "skipValues env s k = (s, k)" by (subst skipValues.simps) auto
    then show ?thesis by simp
  next
    case True
    let ?s2 = "(readLine s)\<lparr>lineNumber := lineNumber (readLine s) + 1\<rparr>"
    let ?k2 = "k + int (length (split (isSpace env) (currentLine ?s2)))"
    have eq: "skipValues env s k = skipValues env ?s2 ?k2"
      using True by (subst skipValues.simps) (simp add: Let_def)
    have s2: "?s2 = s\<lparr>stream := stream ?s2, streamPos := streamPos ?s2,
                      currentLine := currentLine ?s2, lineNumber := lineNumber ?s2\<rparr>"
      by (simp add: readLine_def split: list.splits)
    from "1.IH" [OF True refl refl refl]
    have "fst (skipValues env ?s2 ?k2) =
            ?s2\<lparr>stream := stream (fst (skipValues env ?s2 ?k2)),
                streamPos := streamPos (fst (skipValues env ?s2 ?k2)),
                currentLine := currentLine (fst (skipValues env ?s2 ?k2)),
                lineNumber := lineNumber (fst (skipValues env ?s2 ?k2))\<rparr>" .
    also have "\<dots> = s\<lparr>stream := stream (fst (skipValues env ?s2 ?k2)),
                streamPos := streamPos (fst (skipValues env ?s2 ?k2)),
                currentLine := currentLine (fst (skipValues env ?s2 ?k2)),
                lineNumber := lineNumber (fst (skipValues env ?s2 ?k2))\<rparr>"
      by (subst s2) simp
    finally show ?thesis unfolding eq .
  qed
qed

lemma skipValues_fields [simp]:
  "currentPoly (fst (skipValues env s k)) = currentPoly s"
  "container (fst (skipValues env s k)) = container s"
  "warnings (fst (skipValues env s k)) = warnings s"
  "result (fst (skipValues env s k)) = result s"
  "Pshift (fst (skipValues env s k)) = Pshift s"
  "firstVertex (fst (skipValues env s k)) = firstVertex s"
  "curveType (fst (skipValues env s k)) = curveType s"
  "cpIndex (fst (skipValues env s k)) = cpIndex s"
  by (subst skipValues_frame, simp)+

subsection \<open>What a step does to the output container\<close>

lemma finalized_Some:
  assumes "finalized env pos p = Some q"
  shows "points (vertices q) = points (vertices p)"
    and "points (vertices p) \<noteq> []"
    and "indexes q = indexes p @ [0..<length (points (vertices p))]"
    and "q = p\<lparr>vertices := (vertices p)\<lparr>capacity := capacity (vertices q)\<rparr>,
               indexes := indexes q\<rparr>"
  using assms
  by (auto simp: finalized_def Let_def split: if_splits option.splits)

lemma finalized_empty: "points (vertices p) = [] \<Longrightarrow> finalized env pos p = None"
  by (simp add: finalized_def)

lemma closeBlock_container:
  "container (closeBlock env s) = container s @ closing env s"
  "currentPoly (closeBlock env s) = None"
  by (auto simp: closeBlock_def closing_def split: option.splits)

lemma onBlockHeader_container:
  "container (onBlockHeader env s) = container s @ closing env s"
  "currentPoly (onBlockHeader env s) = None \<or>
   currentPoly (onBlockHeader env s) = Some new_block_polyline"
  by (auto simp: onBlockHeader_def Let_def malformed_def warn_def closeBlock_container)

lemma cpCase0_container:
  "container (cpCase0 env s p ts) = container s"
  by (auto simp: cpCase0_def Let_def malformed_def warn_def split: option.splits)

lemma cpCase2_container:
  "container (cpCase2 env s p ts) = container s"
  by (auto simp: cpCase2_def Let_def malformed_def warn_def split: option.splits)

lemma cpCase1_container:
  "cpCase1 env s p ts = Continue s' \<Longrightarrow> container s' = container s"
  by (cases "curveType s")
     (auto simp: cpCase1_def assert_failed_def Let_def case_prod_beta malformed_def warn_def
                 cpCase2_container
           split: option.splits if_splits)

lemma onCP_container: "onCP env s p = Continue s' \<Longrightarrow> container s' = container s"
  using cpCase1_container [of env s p _ s']
  by (auto simp: onCP_def Let_def cpCase0_container cpCase2_container split: if_splits)

lemma onVertex_container: "onVertex env s p = Continue s' \<Longrightarrow> container s' = container s"
  by (auto simp: onVertex_def firstVertexShift_def Let_def malformed_def warn_def
           split: option.splits if_splits prod.splits)

lemma processLine_container:
  assumes "processLine env s = Continue s'"
  shows "container s' = container s \<or>
         (startsWith (currentLine s) ''B'' \<and> container s' = container s @ closing env s)"
proof -
  let ?s = "s\<lparr>lineNumber := lineNumber s + 1\<rparr>"
  have cl: "closing env ?s = closing env s" by (simp add: closing_def cong: option.case_cong)
  from assms show ?thesis
    using onBlockHeader_container(1) [of env ?s] onCP_container [of env ?s _ s']
      onVertex_container [of env ?s _ s']
    by (auto simp: processLine_def Let_def cl split: if_splits option.splits)
qed

text \<open>The index list of the open polyline stays as it is until the block is closed.\<close>

lemma cpCase0_indexes:
  "currentPoly (cpCase0 env s p ts) = Some p' \<Longrightarrow> currentPoly s = Some p \<Longrightarrow> indexes p' = indexes p"
  by (auto simp: cpCase0_def Let_def malformed_def warn_def split: option.splits if_splits)

lemma cpCase2_indexes:
  "currentPoly (cpCase2 env s p ts) = Some p' \<Longrightarrow> currentPoly s = Some p \<Longrightarrow> indexes p' = indexes p"
  by (auto simp: cpCase2_def Let_def malformed_def warn_def split: option.splits if_splits)

lemma cpCase1_indexes:
  "cpCase1 env s p ts = Continue s' \<Longrightarrow> currentPoly s' = Some p' \<Longrightarrow> currentPoly s = Some p \<Longrightarrow>
   indexes p' = indexes p"
  using cpCase2_indexes [of env "s\<lparr>cpIndex := cpIndex s + 1\<rparr>" p ts p']
  by (cases "curveType s")
     (auto simp: cpCase1_def assert_failed_def Let_def case_prod_beta malformed_def warn_def
           split: option.splits if_splits)

lemma onCP_indexes:
  "onCP env s p = Continue s' \<Longrightarrow> currentPoly s' = Some p' \<Longrightarrow> currentPoly s = Some p \<Longrightarrow>
   indexes p' = indexes p"
  using cpCase0_indexes [of env s p _ p'] cpCase1_indexes [of env s p _ s' p']
    cpCase2_indexes [of env s p _ p']
  by (auto simp: onCP_def Let_def split: if_splits)

lemma onVertex_indexes:
  "onVertex env s p = Continue s' \<Longrightarrow> currentPoly s' = Some p' \<Longrightarrow> currentPoly s = Some p \<Longrightarrow>
   indexes p' = indexes p"
  by (auto simp: onVertex_def firstVertexShift_def Let_def malformed_def warn_def
           split: option.splits if_splits prod.splits)

lemma processLine_indexes:
  assumes "processLine env s = Continue s'" and "currentPoly s' = Some p'"
    and "\<And>p. currentPoly s = Some p \<Longrightarrow> indexes p = []"
  shows "indexes p' = []"
proof -
  let ?s = "s\<lparr>lineNumber := lineNumber s + 1\<rparr>"
  from assms show ?thesis
    using onBlockHeader_container(2) [of env ?s] onCP_indexes [of env ?s _ s' p']
      onVertex_indexes [of env ?s _ s' p']
    by (auto simp: processLine_def Let_def new_block_polyline_def split: if_splits option.splits)
qed

lemma readLine_fields [simp]:
  "currentPoly (readLine s) = currentPoly s"
  "container (readLine s) = container s"
  "warnings (readLine s) = warnings s"
  "result (readLine s) = result s"
  "Pshift (readLine s) = Pshift s"
  "firstVertex (readLine s) = firstVertex s"
  "curveType (readLine s) = curveType s"
  "cpIndex (readLine s) = cpIndex s"
  "lineNumber (readLine s) = lineNumber s"
  "streamPos (readLine s) = Suc (streamPos s)"
  by (simp_all add: readLine_def split: list.splits)

text \<open>The two ways of leaving the loop from its body: a failed \<^verbatim>\<open>reserve\<close> on a vertex line,
  and a failed assertion on the second \<^verbatim>\<open>CP\<close> line of a block.\<close>

lemma onVertex_Return:
  "onVertex env s p = Return r \<Longrightarrow>
   r = \<lparr>status = CC_FERR_NOT_ENOUGH_MEMORY, children = container s, messages = warnings s,
        aborted = False\<rparr>"
  by (auto simp: onVertex_def firstVertexShift_def Let_def
           split: option.splits if_splits prod.splits)

lemma cpCase1_Return:
  "cpCase1 env s p ts = Return r \<Longrightarrow>
   r = \<lparr>status = result s, children = container s, messages = warnings s, aborted = True\<rparr>"
  by (cases "curveType s")
     (auto simp: cpCase1_def assert_failed_def Let_def case_prod_beta split: if_splits)

lemma onCP_Return:
  "onCP env s p = Return r \<Longrightarrow>
   r = \<lparr>status = result s, children = container s, messages = warnings s, aborted = True\<rparr>"
  using cpCase1_Return [of env s p _ r] by (auto simp: onCP_def Let_def split: if_splits)

lemma processLine_Return:
  "processLine env s = Return r \<Longrightarrow>
   r = \<lparr>status = CC_FERR_NOT_ENOUGH_MEMORY, children = container s, messages = warnings s,
        aborted = False\<rparr> \<or>
   r = \<lparr>status = result s, children = container s, messages = warnings s, aborted = True\<rparr>"
  using onVertex_Return [of env "s\<lparr>lineNumber := lineNumber s + 1\<rparr>" _ r]
    onCP_Return [of env "s\<lparr>lineNumber := lineNumber s + 1\<rparr>" _ r]
  by (auto simp: processLine_def Let_def split: if_splits option.splits)

lemma finish_fields:
  "children (finish env s) = container s @ closing env s"
  "status (finish env s) = result s"
  "messages (finish env s) = warnings s"
  "aborted (finish env s) = False"
  by (auto simp: finish_def closing_def Let_def split: option.splits)

lemma closing_cases:
  "closing env s = [] \<or>
   (\<exists>p q. currentPoly s = Some p \<and> finalized env (streamPos s) p = Some q \<and> closing env s = [q])"
  by (auto simp: closing_def split: option.splits)

text \<open>The states at the head of the loop.\<close>

lemma loop_state_readLoop:
  "loop_state env n s = Some t \<Longrightarrow> readLoop env s = readLoop env t"
proof (induction n arbitrary: s)
  case 0
  then show ?case by simp
next
  case (Suc n)
  from Suc.prems obtain s1 where c: "currentLine s \<noteq> [] \<and> \<not> file_error env (streamPos s)"
    and p: "processLine env (readLine s) = Continue s1" and l: "loop_state env n s1 = Some t"
    by (auto split: if_splits step_result.splits)
  from c p have "readLoop env s = readLoop env s1" by (subst readLoop.simps) simp
  with Suc.IH [OF l] show ?case by simp
qed

lemma loop_state_container:
  "loop_state env n s = Some t \<Longrightarrow> \<exists>new. container t = container s @ new"
proof (induction n arbitrary: s)
  case 0
  then show ?case by simp
next
  case (Suc n)
  from Suc.prems obtain s1 where p: "processLine env (readLine s) = Continue s1"
    and l: "loop_state env n s1 = Some t"
    by (auto split: if_splits step_result.splits)
  from processLine_container [OF p] obtain a where "container s1 = container s @ a" by auto
  with Suc.IH [OF l] show ?case by auto
qed

subsection \<open>C1\<close>

lemma closing_nonempty:
  assumes "\<And>p. currentPoly s = Some p \<Longrightarrow> indexes p = []" and "q \<in> set (closing env s)"
  shows "1 \<le> length (points (vertices q)) \<and> indexes q = [0..<length (points (vertices q))]"
proof -
  from assms(2) closing_cases [of env s] obtain p
    where p: "currentPoly s = Some p" and f: "finalized env (streamPos s) p = Some q"
    by auto
  from finalized_Some [OF f] assms(1) [OF p] show ?thesis
    by (cases "points (vertices p)") auto
qed

text \<open>
  C1 (as amended). The reader's test at block-close time is \<^verbatim>\<open>size() != 0\<close>: every polyline
  that a load attaches to the output container held at least one vertex when its block was
  closed (by the next block header or at the end of the stream), and its index list covers
  exactly these vertices; a block whose accumulator is empty at that time is discarded and
  adds nothing to the container.
\<close>

theorem C1_attached_polylines_hold_a_vertex:
  "(\<exists>new. children (loadFile env children0 ls) = children0 @ new \<and>
      (\<forall>p \<in> set new. 1 \<le> length (points (vertices p)) \<and>
                      indexes p = [0..<length (points (vertices p))])) \<and>
   (\<forall>st p. currentPoly st = Some p \<and> points (vertices p) = [] \<longrightarrow>
      container (closeBlock env st) = container st \<and>
      currentPoly (closeBlock env st) = None \<and>
      children (finish env st) = container st)"
proof (intro conjI allI impI)
  define good where "good p \<longleftrightarrow>
    1 \<le> length (points (vertices p)) \<and> indexes p = [0..<length (points (vertices p))]" for p :: ccPolyline
  define I where "I s \<longleftrightarrow>
    (\<exists>new. container s = children0 @ new \<and> (\<forall>p \<in> set new. good p)) \<and>
    (\<forall>p. currentPoly s = Some p \<longrightarrow> indexes p = [])" for s :: load_state
  define Q where "Q r \<longleftrightarrow> (\<exists>new. children r = children0 @ new \<and> (\<forall>p \<in> set new. good p))" for r :: load_result
  have grow: "\<exists>new. container s @ closing env s = children0 @ new \<and> (\<forall>p \<in> set new. good p)"
    if "I s" for s
  proof -
    from that obtain new where n: "container s = children0 @ new" "\<forall>p \<in> set new. good p"
      and ix: "\<And>p. currentPoly s = Some p \<Longrightarrow> indexes p = []"
      by (auto simp: I_def)
    have "\<forall>q \<in> set (closing env s). good q"
      using closing_nonempty [of s _ env] ix unfolding good_def by blast
    with n have "container s @ closing env s = children0 @ (new @ closing env s) \<and>
                 (\<forall>p \<in> set (new @ closing env s). good p)" by auto
    then show ?thesis by blast
  qed
  have "Q (readLoop env (initial_state children0 ls))"
  proof (rule readLoop_rule [where I = I and Q = Q])
    show "I (initial_state children0 ls)" by (simp add: I_def initial_state_def)
  next
    fix s s' assume Is: "I s" and step: "processLine env (readLine s) = Continue s'"
    have Ir: "I (readLine s)" using Is by (simp add: I_def)
    have cl: "closing env (readLine s) = closing env (readLine s)" ..
    from processLine_container [OF step] grow [OF Ir] Ir
    have c: "\<exists>new. container s' = children0 @ new \<and> (\<forall>p \<in> set new. good p)"
      by (auto simp: I_def)
    have "indexes p' = []" if "currentPoly s' = Some p'" for p'
      using processLine_indexes [OF step that] Ir by (auto simp: I_def)
    with c show "I s'" by (simp add: I_def)
  next
    fix s r assume Is: "I s" and ret: "processLine env (readLine s) = Return r"
    from processLine_Return [OF ret] Is show "Q r" by (auto simp: Q_def I_def)
  next
    fix s assume "I s"
    from grow [OF this] show "Q (finish env s)" by (simp add: Q_def finish_fields)
  qed
  moreover have "Q \<lparr>status = CC_FERR_READING, children = children0, messages = [],
                    aborted = False\<rparr>"
    by (simp add: Q_def)
  ultimately have "Q (loadFile env children0 ls)" by (simp add: loadFile_def)
  then show "\<exists>new. children (loadFile env children0 ls) = children0 @ new \<and>
      (\<forall>p \<in> set new. 1 \<le> length (points (vertices p)) \<and>
                      indexes p = [0..<length (points (vertices p))])"
    by (simp add: Q_def good_def)
next
  fix st :: load_state and p :: ccPolyline
  assume a: "currentPoly st = Some p \<and> points (vertices p) = []"
  then have "closing env st = []" by (simp add: closing_def finalized_empty)
  then show "container (closeBlock env st) = container st"
    and "currentPoly (closeBlock env st) = None"
    and "children (finish env st) = container st"
    by (simp_all add: closeBlock_container finish_fields)
qed

text \<open>The equations that run the reader on a sample file.\<close>

lemmas sample_run =
  loadFile_def sample_platform_def initial_state_def readLoop.simps readLine_def
  processLine_def startsWith_def onBlockHeader_def closeBlock_def split_def ascii_space_def
  curveTypeOf_def new_block_polyline_def onVertex_def decimal_literal_def digit_of_def
  firstVertexShift_def recenter_big_def vadd_def finish_def finalized_def Let_def
  malformed_def warn_def onCP_def cpCase0_def cpCase1_def cpCase2_def skipValues.simps
  fromArray_def assert_failed_def

text \<open>
  C1 as stated fails: a block with a single vertex is finalized and attached. The file is a
  block header followed by one vertex line.
\<close>

theorem C1_counterexample:
  "map (length \<circ> points \<circ> vertices)
     (children (loadFile sample_platform [] [''B S'', ''1 2 3 A''])) = [1]"
  by (simp add: sample_run)

theorem C1_witness:
  "children (loadFile sample_platform [] [''B S'', ''B S'', ''1 2 3 A'']) \<noteq> [] \<and>
   1 \<le> length (points (vertices (hd (children
          (loadFile sample_platform [] [''B S'', ''B S'', ''1 2 3 A'']))))) \<and>
   currentPoly ((initial_state [] [])\<lparr>currentPoly := Some new_block_polyline\<rparr>)
     = Some new_block_polyline \<and>
   points (vertices new_block_polyline) = [] \<and>
   children (finish sample_platform
     ((initial_state [] [])\<lparr>currentPoly := Some new_block_polyline\<rparr>)) = []"
proof -
  let ?L = "[''B S'', ''B S'', ''1 2 3 A'']"
  let ?S = "(initial_state [] [])\<lparr>currentPoly := Some new_block_polyline\<rparr>"
  have ev: "map (length \<circ> points \<circ> vertices) (children (loadFile sample_platform [] ?L)) = [1]"
    by (simp add: sample_run)
  then have ne: "children (loadFile sample_platform [] ?L) \<noteq> []" by auto
  from C1_attached_polylines_hold_a_vertex [of sample_platform "[]" ?L]
  obtain new where n: "children (loadFile sample_platform [] ?L) = [] @ new"
    and g: "\<forall>p \<in> set new. 1 \<le> length (points (vertices p))"
    and d: "\<forall>st p. currentPoly st = Some p \<and> points (vertices p) = [] \<longrightarrow>
              children (finish sample_platform st) = container st"
    by blast
  from n ne have "hd (children (loadFile sample_platform [] ?L)) \<in> set new" by simp
  with g have one: "1 \<le> length (points (vertices (hd (children (loadFile sample_platform [] ?L)))))"
    by blast
  have h1: "currentPoly ?S = Some new_block_polyline" by simp
  have h2: "points (vertices new_block_polyline) = []" by (simp add: new_block_polyline_def)
  from d h1 h2 have "children (finish sample_platform ?S) = container ?S" by blast
  then have "children (finish sample_platform ?S) = []" by (simp add: initial_state_def)
  with ne one h1 h2 show ?thesis by blast
qed

subsection \<open>C6\<close>

lemma malformed_reflects:
  "is_corruption d \<Longrightarrow> status_reflects_log (malformed s d)"
  by (simp add: status_reflects_log_def malformed_def warn_def)

lemma closeBlock_reflects:
  "status_reflects_log s \<Longrightarrow> status_reflects_log (closeBlock env s)"
  by (auto simp: status_reflects_log_def closeBlock_def split: option.splits)

lemma onBlockHeader_reflects:
  "status_reflects_log s \<Longrightarrow> status_reflects_log (onBlockHeader env s)"
  using closeBlock_reflects [of s env]
  by (auto simp: onBlockHeader_def Let_def malformed_reflects)
     (auto simp: status_reflects_log_def)

lemma cpCase0_reflects:
  "status_reflects_log s \<Longrightarrow> status_reflects_log (cpCase0 env s p ts)"
  by (auto simp: cpCase0_def Let_def malformed_reflects split: option.splits)
     (auto simp: status_reflects_log_def)

lemma cpCase2_reflects:
  "status_reflects_log s \<Longrightarrow> status_reflects_log (cpCase2 env s p ts)"
  by (auto simp: cpCase2_def Let_def malformed_reflects split: option.splits)
     (auto simp: status_reflects_log_def)

lemma cpCase1_reflects:
  assumes "status_reflects_log s" and "cpCase1 env s p ts = Continue s'"
  shows "status_reflects_log s'"
proof (cases "curveType s")
  case CUREV_S
  have "status_reflects_log (s\<lparr>cpIndex := cpIndex s + 1\<rparr>)"
    using assms(1) by (simp add: status_reflects_log_def)
  from cpCase2_reflects [OF this] CUREV_S assms(2) show ?thesis
    by (auto simp: cpCase1_def)
next
  case CURVE_N
  then show ?thesis using assms
    by (auto simp: cpCase1_def malformed_reflects split: option.splits if_splits)
       (auto simp: status_reflects_log_def)
next
  case CURVE_C
  then show ?thesis using assms
    by (auto simp: cpCase1_def assert_failed_def Let_def case_prod_beta status_reflects_log_def
             split: if_splits)
qed (use assms in \<open>auto simp: cpCase1_def assert_failed_def status_reflects_log_def
                         split: if_splits\<close>)

lemma onCP_reflects:
  "status_reflects_log s \<Longrightarrow> onCP env s p = Continue s' \<Longrightarrow> status_reflects_log s'"
  using cpCase1_reflects [of s env p _ s']
  by (auto simp: onCP_def Let_def cpCase0_reflects cpCase2_reflects split: if_splits)

lemma onVertex_reflects:
  "status_reflects_log s \<Longrightarrow> onVertex env s p = Continue s' \<Longrightarrow> status_reflects_log s'"
  by (auto simp: onVertex_def firstVertexShift_def Let_def malformed_reflects warn_def
           split: option.splits if_splits prod.splits)
     (auto simp: status_reflects_log_def)

lemma processLine_reflects:
  assumes "status_reflects_log s" and "processLine env s = Continue s'"
  shows "status_reflects_log s'"
proof -
  let ?s = "s\<lparr>lineNumber := lineNumber s + 1\<rparr>"
  have s: "status_reflects_log ?s" using assms(1) by (simp add: status_reflects_log_def)
  from assms(2) show ?thesis
    using s onBlockHeader_reflects [OF s, of env] onCP_reflects [OF s, of env _ s']
      onVertex_reflects [OF s, of env _ s']
    by (auto simp: processLine_def Let_def split: if_splits option.splits)
       (auto simp: status_reflects_log_def)
qed

text \<open>The only return from inside the loop is the one after a failed \<^verbatim>\<open>reserve\<close>.\<close>

lemma reserve_fails_Return:
  assumes "reserve_fails env s"
  shows "processLine env (readLine s) =
           Return \<lparr>status = CC_FERR_NOT_ENOUGH_MEMORY, children = container s,
                   messages = warnings s, aborted = False\<rparr>"
proof -
  from assms obtain l rest p where st: "stream s = l # rest" and p: "currentPoly s = Some p"
    and pre: "\<not> startsWith l ''C ''" "\<not> startsWith l ''B''" "\<not> startsWith l ''CN''"
      "\<not> startsWith l ''CP''"
    and tok: "length (split (isSpace env) l) = 4"
    and num: "toDouble env (split (isSpace env) l ! 0) \<noteq> None"
      "toDouble env (split (isSpace env) l ! 1) \<noteq> None"
      "toDouble env (split (isSpace env) l ! 2) \<noteq> None"
    and full: "length (points (vertices p)) = capacity (vertices p)"
    and res: "reserve env (Suc (streamPos s)) (capacity (vertices p))
                (length (points (vertices p)) + 10) = None"
    by (auto simp: reserve_fails_def split: list.splits option.splits)
  let ?s = "(readLine s)\<lparr>lineNumber := lineNumber (readLine s) + 1\<rparr>"
  have cur: "currentLine ?s = l" "streamPos ?s = Suc (streamPos s)"
    "currentPoly ?s = Some p" "container ?s = container s" "warnings ?s = warnings s"
    using st p by (simp_all add: readLine_def)
  from tok have ne: "l \<noteq> []" by (auto simp: split_def)
  from num obtain x y z where "toDouble env (split (isSpace env) l ! 0) = Some x"
    "toDouble env (split (isSpace env) l ! 1) = Some y"
    "toDouble env (split (isSpace env) l ! 2) = Some z" by auto
  then have "onVertex env ?s p =
          Return \<lparr>status = CC_FERR_NOT_ENOUGH_MEMORY, children = container s,
                  messages = warnings s, aborted = False\<rparr>"
    using tok full res cur by (simp add: onVertex_def Let_def)
  then show ?thesis using pre ne cur by (simp add: processLine_def Let_def)
qed

lemma onVertex_reserve:
  assumes "onVertex env s p = Return r"
  shows "length (split (isSpace env) (currentLine s)) = 4 \<and>
         toDouble env (split (isSpace env) (currentLine s) ! 0) \<noteq> None \<and>
         toDouble env (split (isSpace env) (currentLine s) ! 1) \<noteq> None \<and>
         toDouble env (split (isSpace env) (currentLine s) ! 2) \<noteq> None \<and>
         length (points (vertices p)) = capacity (vertices p) \<and>
         reserve env (streamPos s) (capacity (vertices p))
           (length (points (vertices p)) + 10) = None"
  using assms
  by (auto simp: onVertex_def firstVertexShift_def Let_def
           split: option.splits if_splits prod.splits)

lemma Return_reserve_fails:
  assumes "currentLine s \<noteq> []" and "\<not> file_error env (streamPos s)"
    and ret: "processLine env (readLine s) = Return r" and "\<not> aborted r"
  shows "reserve_fails env s"
proof -
  let ?s = "(readLine s)\<lparr>lineNumber := lineNumber (readLine s) + 1\<rparr>"
  from ret obtain p where p: "currentPoly s = Some p"
    and pre: "\<not> startsWith (currentLine ?s) ''C ''" "\<not> startsWith (currentLine ?s) ''B''"
      "\<not> startsWith (currentLine ?s) ''CN''"
    and alt: "(startsWith (currentLine ?s) ''CP'' \<and> onCP env ?s p = Return r) \<or>
              (\<not> startsWith (currentLine ?s) ''CP'' \<and> onVertex env ?s p = Return r)"
    by (auto simp: processLine_def Let_def split: if_splits option.splits)
  from alt assms(4) onCP_Return [of env ?s p r]
  have cp: "\<not> startsWith (currentLine ?s) ''CP''" and v: "onVertex env ?s p = Return r"
    by auto
  note c = onVertex_reserve [OF v]
  show ?thesis
  proof (cases "stream s")
    case Nil
    then have "currentLine ?s = []" by (simp add: readLine_def)
    with c show ?thesis by (simp add: split_def)
  next
    case (Cons l rest)
    then have "currentLine ?s = l" by (simp add: readLine_def)
    with c pre cp p Cons assms(1,2) show ?thesis by (auto simp: reserve_fails_def)
  qed
qed

lemma readLoop_out_of_memory:
  "status_reflects_log s \<Longrightarrow> status (readLoop env s) = CC_FERR_NOT_ENOUGH_MEMORY \<Longrightarrow>
   \<exists>n t. loop_state env n s = Some t \<and> reserve_fails env t"
proof (induction env s rule: readLoop.induct)
  case (1 env s)
  have res: "result s \<noteq> CC_FERR_NOT_ENOUGH_MEMORY"
    using "1.prems"(1) by (auto simp: status_reflects_log_def split: if_splits)
  show ?case
  proof (cases "currentLine s \<noteq> [] \<and> \<not> file_error env (streamPos s)")
    case False
    then have "readLoop env s = finish env s" by (subst readLoop.simps) auto
    with "1.prems"(2) res show ?thesis by (simp add: finish_fields)
  next
    case True
    show ?thesis
    proof (cases "processLine env (readLine s)")
      case (Return r)
      with True have "readLoop env s = r" by (subst readLoop.simps) simp
      with "1.prems"(2) have "status r = CC_FERR_NOT_ENOUGH_MEMORY" by simp
      with processLine_Return [OF Return] res have "\<not> aborted r" by auto
      with True Return have "reserve_fails env s" by (auto intro: Return_reserve_fails)
      then have "loop_state env 0 s = Some s \<and> reserve_fails env s" by simp
      then show ?thesis by blast
    next
      case (Continue s1)
      with True have eq: "readLoop env s = readLoop env s1" by (subst readLoop.simps) simp
      have "status_reflects_log (readLine s)"
        using "1.prems"(1) by (simp add: status_reflects_log_def)
      from processLine_reflects [OF this Continue] have "status_reflects_log s1" .
      from "1.IH" [OF True Continue this] "1.prems"(2) eq
      obtain n t where "loop_state env n s1 = Some t" and r: "reserve_fails env t" by auto
      with True Continue have "loop_state env (Suc n) s = Some t" by simp
      with r show ?thesis by blast
    qed
  qed
qed

lemma loop_state_out_of_memory:
  assumes "loop_state env n s = Some t" and "reserve_fails env t"
  shows "readLoop env s =
           \<lparr>status = CC_FERR_NOT_ENOUGH_MEMORY, children = container t, messages = warnings t,
            aborted = False\<rparr>"
proof -
  from assms(2) have "currentLine t \<noteq> [] \<and> \<not> file_error env (streamPos t)"
    by (simp add: reserve_fails_def)
  with reserve_fails_Return [OF assms(2)]
  have "readLoop env t =
           \<lparr>status = CC_FERR_NOT_ENOUGH_MEMORY, children = container t, messages = warnings t,
            aborted = False\<rparr>"
    by (subst readLoop.simps) simp
  with loop_state_readLoop [OF assms(1)] show ?thesis by simp
qed

lemma readLoop_status_by_log:
  assumes "status_reflects_log s" and "status (readLoop env s) \<noteq> CC_FERR_NOT_ENOUGH_MEMORY"
  shows "status (readLoop env s) =
           (if \<exists>d \<in> set (messages (readLoop env s)). is_corruption d
            then CC_FERR_MALFORMED_FILE else CC_FERR_NO_ERROR)"
proof -
  define Q where "Q r \<longleftrightarrow>
    status r = CC_FERR_NOT_ENOUGH_MEMORY \<or>
    status r = (if \<exists>d \<in> set (messages r). is_corruption d
                then CC_FERR_MALFORMED_FILE else CC_FERR_NO_ERROR)" for r :: load_result
  have "Q (readLoop env s)"
  proof (rule readLoop_rule [where I = status_reflects_log and Q = Q])
    show "status_reflects_log s" by (rule assms(1))
  next
    fix s s' assume "status_reflects_log s" and step: "processLine env (readLine s) = Continue s'"
    then have "status_reflects_log (readLine s)" by (simp add: status_reflects_log_def)
    from processLine_reflects [OF this step] show "status_reflects_log s'" .
  next
    fix s r assume log: "status_reflects_log s" and "processLine env (readLine s) = Return r"
    with processLine_Return [of env "readLine s" r]
    have "status r = CC_FERR_NOT_ENOUGH_MEMORY \<or>
          (status r = result s \<and> messages r = warnings s)" by auto
    with log show "Q r" unfolding Q_def status_reflects_log_def
      by (elim disjE conjE) simp_all
  next
    fix s assume "status_reflects_log s"
    then show "Q (finish env s)" by (simp add: Q_def finish_fields status_reflects_log_def)
  qed
  with assms(2) show ?thesis by (simp add: Q_def)
qed

text \<open>
  C6 (as amended). The reader has no "nothing to load" status: \<^verbatim>\<open>result\<close> starts as
  \<^verbatim>\<open>CC_FERR_NO_ERROR\<close> and only a corrupted line changes it. Whatever the input, the status is
  never \<^verbatim>\<open>CC_FERR_NO_LOAD\<close>, and it is \<^verbatim>\<open>CC_FERR_READING\<close> when the stream does not open.
  When the stream opens, the status is out-of-memory exactly when, at some pass of the main
  loop, \<^verbatim>\<open>reserve\<close> is called to grow a full vertex accumulator for a well-formed vertex line
  and fails (a failed \<^verbatim>\<open>resize\<close> or \<^verbatim>\<open>addPointIndex\<close> at the close of a block is silent: the
  block is dropped and the status is not touched). In every other case the status is the one
  the log gives: "malformed" if a corrupted line was reported and "no error" if none was,
  whether or not a polyline was finalized. (For a load that a failed assertion aborts, the
  status meant is the value of \<^verbatim>\<open>result\<close> at that moment.)
\<close>

theorem C6_status_of_a_load:
  "status (loadFile env children0 ls) \<noteq> CC_FERR_NO_LOAD \<and>
   (\<not> file_open env \<longrightarrow> status (loadFile env children0 ls) = CC_FERR_READING) \<and>
   (file_open env \<longrightarrow>
      (status (loadFile env children0 ls) = CC_FERR_NOT_ENOUGH_MEMORY \<longleftrightarrow>
         (\<exists>n st. loop_state env n (initial_state children0 ls) = Some st \<and>
                 reserve_fails env st)) \<and>
      (status (loadFile env children0 ls) \<noteq> CC_FERR_NOT_ENOUGH_MEMORY \<longrightarrow>
         status (loadFile env children0 ls) =
           (if \<exists>d \<in> set (messages (loadFile env children0 ls)). is_corruption d
            then CC_FERR_MALFORMED_FILE else CC_FERR_NO_ERROR)))"
proof (cases "file_open env")
  case False
  then show ?thesis by (simp add: loadFile_def)
next
  case True
  let ?i = "initial_state children0 ls"
  have eq: "loadFile env children0 ls = readLoop env ?i" using True by (simp add: loadFile_def)
  have i: "status_reflects_log ?i" by (simp add: status_reflects_log_def initial_state_def)
  have a: "status (readLoop env ?i) = CC_FERR_NOT_ENOUGH_MEMORY \<longleftrightarrow>
             (\<exists>n st. loop_state env n ?i = Some st \<and> reserve_fails env st)"
  proof
    assume "status (readLoop env ?i) = CC_FERR_NOT_ENOUGH_MEMORY"
    from readLoop_out_of_memory [OF i this]
    show "\<exists>n st. loop_state env n ?i = Some st \<and> reserve_fails env st" .
  next
    assume "\<exists>n st. loop_state env n ?i = Some st \<and> reserve_fails env st"
    then obtain n st where "loop_state env n ?i = Some st" and "reserve_fails env st" by blast
    from loop_state_out_of_memory [OF this]
    show "status (readLoop env ?i) = CC_FERR_NOT_ENOUGH_MEMORY" by simp
  qed
  have b: "status (readLoop env ?i) =
           (if \<exists>d \<in> set (messages (readLoop env ?i)). is_corruption d
            then CC_FERR_MALFORMED_FILE else CC_FERR_NO_ERROR)"
    if "status (readLoop env ?i) \<noteq> CC_FERR_NOT_ENOUGH_MEMORY"
    using readLoop_status_by_log [OF i that] .
  have c: "status (readLoop env ?i) \<noteq> CC_FERR_NO_LOAD"
  proof (cases "status (readLoop env ?i) = CC_FERR_NOT_ENOUGH_MEMORY")
    case True
    then show ?thesis by simp
  next
    case False
    from b [OF False] show ?thesis by (simp split: if_splits)
  qed
  from a b c True show ?thesis unfolding eq by blast
qed

text \<open>
  C6 as stated fails: an empty stream opens, holds no block, and the result is "no error"
  with no polyline, not "nothing to load".
\<close>

theorem C6_counterexample:
  "status (loadFile sample_platform [] []) = CC_FERR_NO_ERROR \<and>
   children (loadFile sample_platform [] []) = []"
  by (simp add: sample_run)

theorem C6_witness:
  "file_open sample_platform \<and>
   (\<forall>st. \<not> reserve_fails sample_platform st) \<and>
   messages (loadFile sample_platform [] [''B S'', ''1 2 A'']) = [CorruptedVertex 2] \<and>
   status (loadFile sample_platform [] [''B S'', ''1 2 A'']) = CC_FERR_MALFORMED_FILE \<and>
   file_open exhausted_platform \<and>
   (\<exists>st. loop_state exhausted_platform 4
           (initial_state [] [''B S'', ''1 2 3 A'', ''4 5 6 A'', ''B S'', ''7 8 9 A'']) = Some st \<and>
         reserve_fails exhausted_platform st) \<and>
   status (loadFile exhausted_platform [] [''B S'', ''1 2 3 A'', ''4 5 6 A'', ''B S'', ''7 8 9 A''])
     = CC_FERR_NOT_ENOUGH_MEMORY"
proof -
  let ?L = "[''B S'', ''1 2 A'']"
  let ?r = "loadFile sample_platform [] ?L"
  have o: "file_open sample_platform" by (simp add: sample_platform_def)
  have m: "messages ?r = [CorruptedVertex 2]" by (simp add: sample_run)
  have n: "\<not> reserve_fails sample_platform st" for st
    by (simp add: reserve_fails_def sample_platform_def split: list.splits option.splits)
  note inst = C6_status_of_a_load [of sample_platform "[]" ?L]
  from inst o n have "status ?r \<noteq> CC_FERR_NOT_ENOUGH_MEMORY" by blast
  with inst o
  have "status ?r = (if \<exists>d \<in> set (messages ?r). is_corruption d
                     then CC_FERR_MALFORMED_FILE else CC_FERR_NO_ERROR)" by blast
  with m have s: "status ?r = CC_FERR_MALFORMED_FILE" by simp
  let ?E = exhausted_platform
  let ?M = "[''B S'', ''1 2 3 A'', ''4 5 6 A'', ''B S'', ''7 8 9 A'']"
  let ?S = "\<lparr>stream = [''7 8 9 A''], streamPos = 4, currentLine = ''B S'',
           currentPoly = Some new_block_polyline, lineNumber = 4, curveType = CUREV_S,
           cpIndex = 0, result = CC_FERR_NO_ERROR, Pshift = (0, 0, 0), firstVertex = False,
           container =
             [new_block_polyline
                \<lparr>vertices := \<lparr>points = [(1, 2, 3), (4, 5, 6)], capacity = 2, isEnabled = False\<rparr>,
                 indexes := [0, 1]\<rparr>],
           warnings = []\<rparr>"
  have oe: "file_open ?E" by (simp add: exhausted_platform_def sample_platform_def)
  have l: "loop_state ?E 4 (initial_state [] ?M) = Some ?S"
    by (simp add: eval_nat_numeral exhausted_platform_def sample_run)
  have f: "reserve_fails ?E ?S"
    by (simp add: reserve_fails_def exhausted_platform_def sample_platform_def startsWith_def
                  split_def ascii_space_def decimal_literal_def digit_of_def Let_def
                  new_block_polyline_def)
  from l f have e: "\<exists>st. loop_state ?E 4 (initial_state [] ?M) = Some st \<and> reserve_fails ?E st"
    by blast
  with C6_status_of_a_load [of ?E "[]" ?M] oe
  have se: "status (loadFile ?E [] ?M) = CC_FERR_NOT_ENOUGH_MEMORY" by blast
  from o n m s oe e se show ?thesis by blast
qed

subsection \<open>C5\<close>

lemma startsWith_CP:
  "startsWith l ''CP'' \<Longrightarrow> \<not> startsWith l ''C '' \<and> \<not> startsWith l ''B'' \<and> \<not> startsWith l ''CN''"
  by (cases l; cases "tl l") (auto simp: startsWith_def)

text \<open>
  C5 (as amended). When the first descriptor line of a block is malformed (its token count is
  not three, or the connected or the closed token is not an integer), the reader reports the
  line, sets the status to malformed and changes nothing else but the line counter: the
  header stage stays 0, so the next descriptor line is again read as the line of the
  connected and closed flags.
\<close>

theorem C5_malformed_flags_line_keeps_stage:
  assumes "currentPoly st = Some p" and "cpIndex st = 0"
    and "startsWith (currentLine st) ''CP''"
    and "length (split (isSpace env) (currentLine st)) \<noteq> 3 \<or>
         toInt env (split (isSpace env) (currentLine st) ! 1) = None \<or>
         toInt env (split (isSpace env) (currentLine st) ! 2) = None"
  shows "(let st1 = st\<lparr>lineNumber := lineNumber st + 1,
                       result := CC_FERR_MALFORMED_FILE,
                       warnings := warnings st @ [CorruptedFlags (lineNumber st + 1)]\<rparr>
          in processLine env st = Continue st1 \<and>
             cpIndex st1 = 0 \<and>
             currentPoly st1 = Some p \<and>
             (\<forall>l. startsWith l ''CP'' \<longrightarrow>
                processLine env (st1\<lparr>currentLine := l\<rparr>) =
                Continue (cpCase0 env
                  (st1\<lparr>currentLine := l, lineNumber := lineNumber st1 + 1\<rparr>)
                  p (split (isSpace env) l))))"
proof -
  let ?s = "st\<lparr>lineNumber := lineNumber st + 1\<rparr>"
  let ?st1 = "st\<lparr>lineNumber := lineNumber st + 1,
                  result := CC_FERR_MALFORMED_FILE,
                  warnings := warnings st @ [CorruptedFlags (lineNumber st + 1)]\<rparr>"
  have "cpCase0 env ?s p (split (isSpace env) (currentLine st)) =
          malformed ?s (CorruptedFlags (lineNumber st + 1))"
    using assms(4) by (auto simp: cpCase0_def split: option.splits)
  then have "onCP env ?s p = Continue (malformed ?s (CorruptedFlags (lineNumber st + 1)))"
    using assms(2) by (simp add: onCP_def)
  then have a: "processLine env st = Continue ?st1"
    using assms(1,3) startsWith_CP [OF assms(3)]
    by (simp add: processLine_def malformed_def warn_def)
  have b: "processLine env (?st1\<lparr>currentLine := l\<rparr>) =
            Continue (cpCase0 env (?st1\<lparr>currentLine := l, lineNumber := lineNumber ?st1 + 1\<rparr>)
              p (split (isSpace env) l))" if l: "startsWith l ''CP''" for l
    using assms(1,2) l startsWith_CP [OF l]
    by (simp add: processLine_def onCP_def)
  from a b assms(1,2) show ?thesis unfolding Let_def by simp
qed

text \<open>
  C5 as stated fails: after the malformed flags line \<^verbatim>\<open>CP x y\<close> the line \<^verbatim>\<open>CP 0 1\<close> is read
  as the flags line (the polyline becomes closed and no second line is reported), not as the
  stage-1 line.
\<close>

theorem C5_counterexample:
  "map isClosed
     (children (loadFile sample_platform [] [''B S'', ''CP x y'', ''CP 0 1'', ''1 2 3 A'']))
     = [True] \<and>
   messages (loadFile sample_platform [] [''B S'', ''CP x y'', ''CP 0 1'', ''1 2 3 A''])
     = [CorruptedFlags 2]"
  by (simp add: sample_run)

theorem C5_witness:
  "currentPoly ((initial_state [] [])\<lparr>currentLine := ''CP x y'',
                                       currentPoly := Some new_block_polyline\<rparr>)
     = Some new_block_polyline \<and>
   cpIndex ((initial_state [] [])\<lparr>currentLine := ''CP x y'',
                                   currentPoly := Some new_block_polyline\<rparr>) = 0 \<and>
   startsWith (currentLine ((initial_state [] [])\<lparr>currentLine := ''CP x y'',
                              currentPoly := Some new_block_polyline\<rparr>)) ''CP'' \<and>
   toInt sample_platform (split (isSpace sample_platform) ''CP x y'' ! 1) = None \<and>
   processLine sample_platform
     ((initial_state [] [])\<lparr>currentLine := ''CP x y'',
                             currentPoly := Some new_block_polyline\<rparr>) =
     Continue ((initial_state [] [])\<lparr>currentLine := ''CP x y'',
                                       currentPoly := Some new_block_polyline,
                                       lineNumber := 1,
                                       result := CC_FERR_MALFORMED_FILE,
                                       warnings := [CorruptedFlags 1]\<rparr>)"
proof -
  let ?S = "(initial_state [] [])\<lparr>currentLine := ''CP x y'',
                                  currentPoly := Some new_block_polyline\<rparr>"
  have h1: "currentPoly ?S = Some new_block_polyline" by simp
  have h2: "cpIndex ?S = 0" by (simp add: initial_state_def)
  have h3: "startsWith (currentLine ?S) ''CP''" by (simp add: startsWith_def)
  have h4: "toInt sample_platform (split (isSpace sample_platform) ''CP x y'' ! 1) = None"
    by (simp add: sample_platform_def split_def ascii_space_def decimal_literal_def
                  digit_of_def Let_def)
  then have h4': "length (split (isSpace sample_platform) (currentLine ?S)) \<noteq> 3 \<or>
         toInt sample_platform (split (isSpace sample_platform) (currentLine ?S) ! 1) = None \<or>
         toInt sample_platform (split (isSpace sample_platform) (currentLine ?S) ! 2) = None"
    by simp
  from C5_malformed_flags_line_keeps_stage [OF h1 h2 h3 h4']
  have "processLine sample_platform ?S =
          Continue (?S\<lparr>lineNumber := lineNumber ?S + 1,
                       result := CC_FERR_MALFORMED_FILE,
                       warnings := warnings ?S @ [CorruptedFlags (lineNumber ?S + 1)]\<rparr>)"
    unfolding Let_def by blast
  then have "processLine sample_platform ?S =
     Continue ((initial_state [] [])\<lparr>currentLine := ''CP x y'',
                                       currentPoly := Some new_block_polyline,
                                       lineNumber := 1,
                                       result := CC_FERR_MALFORMED_FILE,
                                       warnings := [CorruptedFlags 1]\<rparr>)"
    by (simp add: initial_state_def)
  with h1 h2 h3 h4 show ?thesis by blast
qed

subsection \<open>C9\<close>

text \<open>
  C9. Let \<open>st\<close> be the state of a load after any number of lines, and let the next line be a
  well-formed vertex line read while the vertex accumulator is full. If the allocation made
  by \<^verbatim>\<open>reserve\<close> fails, \<^verbatim>\<open>loadFile\<close> returns \<^verbatim>\<open>CC_FERR_NOT_ENOUGH_MEMORY\<close>, and the output
  container holds exactly what it held at that moment (what it held before the load, followed
  by the polylines finalized so far): only the open polyline is lost.
\<close>

theorem C9_allocation_failure_keeps_finalized_polylines:
  assumes "file_open env"
    and "loop_state env n (initial_state children0 ls) = Some st"
    and "currentLine st \<noteq> []" and "\<not> file_error env (streamPos st)"
    and "stream st = l # rest"
    and "currentPoly st = Some p"
    and "\<not> startsWith l ''C ''" and "\<not> startsWith l ''B''"
    and "\<not> startsWith l ''CN''" and "\<not> startsWith l ''CP''" and "l \<noteq> []"
    and "split (isSpace env) l = [tx, ty, tz, key]"
    and "toDouble env tx = Some x" and "toDouble env ty = Some y" and "toDouble env tz = Some z"
    and "length (points (vertices p)) = capacity (vertices p)"
    and "reserve env (Suc (streamPos st)) (capacity (vertices p))
           (length (points (vertices p)) + 10) = None"
  shows "loadFile env children0 ls =
           \<lparr>status = CC_FERR_NOT_ENOUGH_MEMORY, children = container st,
            messages = warnings st, aborted = False\<rparr> \<and>
         (\<exists>new. container st = children0 @ new)"
proof -
  let ?s = "(readLine st)\<lparr>lineNumber := lineNumber (readLine st) + 1\<rparr>"
  have cur: "currentLine ?s = l" "streamPos ?s = Suc (streamPos st)"
    "currentPoly ?s = Some p" "container ?s = container st" "warnings ?s = warnings st"
    using assms(5,6) by (simp_all add: readLine_def)
  have "onVertex env ?s p =
          Return \<lparr>status = CC_FERR_NOT_ENOUGH_MEMORY, children = container st,
                  messages = warnings st, aborted = False\<rparr>"
    using assms(12-17) cur by (simp add: onVertex_def Let_def)
  then have "processLine env (readLine st) =
          Return \<lparr>status = CC_FERR_NOT_ENOUGH_MEMORY, children = container st,
                  messages = warnings st, aborted = False\<rparr>"
    using assms(7-11) cur by (simp add: processLine_def Let_def)
  then have "readLoop env st =
          \<lparr>status = CC_FERR_NOT_ENOUGH_MEMORY, children = container st, messages = warnings st,
           aborted = False\<rparr>"
    using assms(3,4) by (subst readLoop.simps) simp
  with loop_state_readLoop [OF assms(2)] assms(1)
  have "loadFile env children0 ls =
          \<lparr>status = CC_FERR_NOT_ENOUGH_MEMORY, children = container st, messages = warnings st,
           aborted = False\<rparr>"
    by (simp add: loadFile_def)
  moreover from loop_state_container [OF assms(2)]
  have "\<exists>new. container st = children0 @ new" by (simp add: initial_state_def)
  ultimately show ?thesis by blast
qed

theorem C9_witness:
  "file_open exhausted_platform \<and>
   loop_state exhausted_platform 4
     (initial_state [] [''B S'', ''1 2 3 A'', ''4 5 6 A'', ''B S'', ''7 8 9 A'']) =
     Some \<lparr>stream = [''7 8 9 A''], streamPos = 4, currentLine = ''B S'',
           currentPoly = Some new_block_polyline, lineNumber = 4, curveType = CUREV_S,
           cpIndex = 0, result = CC_FERR_NO_ERROR, Pshift = (0, 0, 0), firstVertex = False,
           container =
             [new_block_polyline
                \<lparr>vertices := \<lparr>points = [(1, 2, 3), (4, 5, 6)], capacity = 2, isEnabled = False\<rparr>,
                 indexes := [0, 1]\<rparr>],
           warnings = []\<rparr> \<and>
   split (isSpace exhausted_platform) ''7 8 9 A'' = [''7'', ''8'', ''9'', ''A''] \<and>
   toDouble exhausted_platform ''7'' = Some 7 \<and>
   toDouble exhausted_platform ''8'' = Some 8 \<and>
   toDouble exhausted_platform ''9'' = Some 9 \<and>
   reserve exhausted_platform 5 0 10 = None \<and>
   loadFile exhausted_platform [] [''B S'', ''1 2 3 A'', ''4 5 6 A'', ''B S'', ''7 8 9 A''] =
     \<lparr>status = CC_FERR_NOT_ENOUGH_MEMORY,
      children =
        [new_block_polyline
           \<lparr>vertices := \<lparr>points = [(1, 2, 3), (4, 5, 6)], capacity = 2, isEnabled = False\<rparr>,
            indexes := [0, 1]\<rparr>],
      messages = [],
      aborted = False\<rparr>"
proof -
  let ?E = exhausted_platform
  let ?L = "[''B S'', ''1 2 3 A'', ''4 5 6 A'', ''B S'', ''7 8 9 A'']"
  let ?P = "new_block_polyline
                \<lparr>vertices := \<lparr>points = [(1, 2, 3), (4, 5, 6)], capacity = 2, isEnabled = False\<rparr>,
                 indexes := [0, 1]\<rparr>"
  let ?S = "\<lparr>stream = [''7 8 9 A''], streamPos = 4, currentLine = ''B S'',
           currentPoly = Some new_block_polyline, lineNumber = 4, curveType = CUREV_S,
           cpIndex = 0, result = CC_FERR_NO_ERROR, Pshift = (0, 0, 0), firstVertex = False,
           container = [?P], warnings = []\<rparr>"
  have h1: "file_open ?E" by (simp add: exhausted_platform_def sample_platform_def)
  have h2: "loop_state ?E 4 (initial_state [] ?L) = Some ?S"
    by (simp add: eval_nat_numeral exhausted_platform_def sample_run)
  have h3: "currentLine ?S \<noteq> []" by simp
  have h4: "\<not> file_error ?E (streamPos ?S)"
    by (simp add: exhausted_platform_def sample_platform_def)
  have h5: "stream ?S = ''7 8 9 A'' # []" by simp
  have h6: "currentPoly ?S = Some new_block_polyline" by simp
  have h7: "\<not> startsWith ''7 8 9 A'' ''C ''" "\<not> startsWith ''7 8 9 A'' ''B''"
    "\<not> startsWith ''7 8 9 A'' ''CN''" "\<not> startsWith ''7 8 9 A'' ''CP''" "''7 8 9 A'' \<noteq> []"
    by (simp_all add: startsWith_def)
  have h12: "split (isSpace ?E) ''7 8 9 A'' = [''7'', ''8'', ''9'', ''A'']"
    by (simp add: exhausted_platform_def sample_platform_def split_def ascii_space_def)
  have h13: "toDouble ?E ''7'' = Some 7" "toDouble ?E ''8'' = Some 8" "toDouble ?E ''9'' = Some 9"
    by (simp_all add: exhausted_platform_def sample_platform_def decimal_literal_def
                      digit_of_def Let_def)
  have h16: "length (points (vertices new_block_polyline)) = capacity (vertices new_block_polyline)"
    by (simp add: new_block_polyline_def)
  have r: "reserve ?E 5 0 10 = None"
    by (simp add: exhausted_platform_def sample_platform_def)
  then have h17: "reserve ?E (Suc (streamPos ?S)) (capacity (vertices new_block_polyline))
           (length (points (vertices new_block_polyline)) + 10) = None"
    by (simp add: new_block_polyline_def)
  from C9_allocation_failure_keeps_finalized_polylines
         [OF h1 h2 h3 h4 h5 h6 h7 h12 h13 h16 h17]
  have "loadFile ?E [] ?L =
          \<lparr>status = CC_FERR_NOT_ENOUGH_MEMORY, children = container ?S, messages = warnings ?S,
           aborted = False\<rparr>"
    by blast
  then have "loadFile ?E [] ?L =
          \<lparr>status = CC_FERR_NOT_ENOUGH_MEMORY, children = [?P], messages = [],
           aborted = False\<rparr>" by simp
  with h1 h2 h12 h13 r show ?thesis by blast
qed

subsection \<open>C8\<close>

text \<open>
  C8. The claim has the reader survive a circle block with fewer than sixteen values: the
  skipping loop stops when the stream is exhausted and the stage advances. The loop does stop
  there, but line 333 then asserts \<^verbatim>\<open>skipped == 16\<close>. On the file below the stream ends after
  the three values of the second \<^verbatim>\<open>CP\<close> line: the loop leaves with \<^verbatim>\<open>skipped\<close> equal to 3, the
  assertion fails and, in a build with assertions, the process is aborted. Only a build
  without assertions goes on, to the end of the load.
\<close>

theorem C8_short_circle_block_fails_the_assertion:
  "assertions sample_platform \<and>
   snd (skipValues sample_platform
          ((initial_state [] [])\<lparr>currentLine := ''CP 1 2 3'', streamPos := 3, lineNumber := 3,
                                  currentPoly := Some new_block_polyline, curveType := CURVE_C,
                                  cpIndex := 1\<rparr>)
          (int (length (split (isSpace sample_platform) ''CP 1 2 3'')) - 1)) = 3 \<and>
   loadFile sample_platform [] [''B C'', ''CP 1 0'', ''CP 1 2 3''] =
     \<lparr>status = CC_FERR_NO_ERROR, children = [], messages = [], aborted = True\<rparr> \<and>
   loadFile (sample_platform\<lparr>assertions := False\<rparr>) [] [''B C'', ''CP 1 0'', ''CP 1 2 3''] =
     \<lparr>status = CC_FERR_NO_ERROR, children = [], messages = [], aborted = False\<rparr>"
  by (simp add: sample_run)

section \<open>Properties of the writer\<close>

lemma writeProfiles_text:
  "file_text (writeProfiles env ps r) =
     map_option (\<lambda>t. t @ concat (map (writeBlock env) [p \<leftarrow> ps. 2 \<le> length (indexes p)]))
       (file_text r)"
proof (induction ps arbitrary: r)
  case Nil
  then show ?case by (cases "file_text r") simp_all
next
  case (Cons poly ps)
  show ?case
  proof (cases "length (indexes poly) < 2")
    case True
    then show ?thesis using Cons.IH [of "r\<lparr>skipped_profiles := skipped_profiles r @ [name poly]\<rparr>"]
      by simp
  next
    case False
    then show ?thesis
      using Cons.IH [of "r\<lparr>save_status := CC_FERR_NO_ERROR,
                file_text := map_option (\<lambda>t. t @ writeBlock env poly) (file_text r)\<rparr>"]
      by (cases "file_text r") simp_all
  qed
qed

lemma saveToFile_text:
  assumes "file_text (saveToFile env entity filename) = Some t"
  shows "\<exists>e. entity = Some e \<and>
           t = [Text ''C Generated by CloudCompare'', Endl] @
               concat (map (writeBlock env) [p \<leftarrow> collectProfiles e. 2 \<le> length (indexes p)])"
  using assms
  by (auto simp: saveToFile_def writeProfiles_text split: option.splits if_splits)

lemma writeVertex_line:
  "writeVertex poly j =
     concat (map (\<lambda>k. [Text '' ''] @
                       (if 0 \<le> u (getPoint poly j) k then [Text ''+''] else []) @
                       [QString_number (u (toGlobal3d poly (getPoint poly j)) k) (CHR ''E'') 12])
                 [0, 1, 2]) @
     [Text '' A'', Endl]"
proof -
  have "[0..<3] = [0, 1, 2::nat]" by (simp add: upt_rec)
  then show ?thesis
    by (simp add: writeVertex_def writeCoordinate_def s_precision_def Let_def)
qed

lemma toGlobal3d_unshifted:
  "globalShift poly = (0, 0, 0) \<Longrightarrow> toGlobal3d poly P = P"
  by (cases P) (simp add: toGlobal3d_def vsub_def)

text \<open>
  C3 (as amended). The text written is the header line followed by the blocks of the
  polylines with at least two vertices, and a block is its four header lines followed by one
  line per vertex. Every vertex line of every polyline holds, for each of the three
  coordinates, a space, possibly a \<^verbatim>\<open>+\<close>, and the global coordinate formatted by
  \<^verbatim>\<open>QString::number\<close> in format \<^verbatim>\<open>'E'\<close> (scientific notation) with precision 12; the line ends
  with the token \<^verbatim>\<open>A\<close>. The \<^verbatim>\<open>+\<close> is written when the stored coordinate is not negative; for
  a polyline without global shift the stored coordinate is the one printed, so that the
  \<^verbatim>\<open>+\<close> is there exactly when the number printed is not negative.
\<close>

theorem C3_vertex_lines_are_scientific:
  "(file_text (saveToFile env entity filename) = Some t \<longrightarrow>
      (\<exists>e. entity = Some e \<and>
         t = [Text ''C Generated by CloudCompare'', Endl] @
             concat (map (writeBlock env) [p \<leftarrow> collectProfiles e. 2 \<le> length (indexes p)]))) \<and>
   drop 11 (writeBlock env poly) = concat (map (writeVertex poly) [0..<length (indexes poly)]) \<and>
   writeVertex poly j =
     concat (map (\<lambda>k. [Text '' ''] @
                       (if 0 \<le> u (getPoint poly j) k then [Text ''+''] else []) @
                       [QString_number (u (toGlobal3d poly (getPoint poly j)) k) (CHR ''E'') 12])
                 [0, 1, 2]) @
     [Text '' A'', Endl] \<and>
   (globalShift poly = (0, 0, 0) \<longrightarrow> toGlobal3d poly (getPoint poly j) = getPoint poly j)"
proof (intro conjI impI)
  assume "file_text (saveToFile env entity filename) = Some t"
  from saveToFile_text [OF this]
  show "\<exists>e. entity = Some e \<and>
         t = [Text ''C Generated by CloudCompare'', Endl] @
             concat (map (writeBlock env) [p \<leftarrow> collectProfiles e. 2 \<le> length (indexes p)])" .
next
  show "drop 11 (writeBlock env poly) =
          concat (map (writeVertex poly) [0..<length (indexes poly)])"
    by (simp add: writeBlock_def Let_def)
next
  show "writeVertex poly j =
     concat (map (\<lambda>k. [Text '' ''] @
                       (if 0 \<le> u (getPoint poly j) k then [Text ''+''] else []) @
                       [QString_number (u (toGlobal3d poly (getPoint poly j)) k) (CHR ''E'') 12])
                 [0, 1, 2]) @
     [Text '' A'', Endl]"
    by (rule writeVertex_line)
next
  assume "globalShift poly = (0, 0, 0)"
  then show "toGlobal3d poly (getPoint poly j) = getPoint poly j"
    by (rule toGlobal3d_unshifted)
qed

lemmas sample_save =
  saveToFile_def sample_save_platform_def sample_polyline_def spaced_polyline_def
  new_block_polyline_def writeBlock_def writeVertex_def writeCoordinate_def upDirOf_def
  getPoint_def toGlobal3d_def vsub_def u_def s_precision_def Let_def upt_rec

text \<open>
  C3 as stated fails: the coordinates of a vertex are formatted with \<^verbatim>\<open>'E'\<close>, which is
  scientific and not fixed-point notation.
\<close>

theorem C3_counterexample:
  "writeVertex sample_polyline 0 =
     [Text '' '', Text ''+'', QString_number 1 (CHR ''E'') 12,
      Text '' '', Text ''+'', QString_number 2 (CHR ''E'') 12,
      Text '' '', QString_number (- 3) (CHR ''E'') 12,
      Text '' A'', Endl] \<and>
   \<not> is_fixed_notation (QString_number 1 (CHR ''E'') 12)"
  by (simp add: sample_save)

theorem C3_witness:
  "globalShift sample_polyline = (0, 0, 0) \<and>
   file_text (saveToFile sample_save_platform (Some (POLY_LINE sample_polyline)) ''out.sx'') =
     Some ([Text ''C Generated by CloudCompare'', Endl] @ writeBlock sample_save_platform sample_polyline) \<and>
   toGlobal3d sample_polyline (getPoint sample_polyline 1) = (4, 5, 6) \<and>
   writeVertex sample_polyline 1 =
     [Text '' '', Text ''+'', QString_number 4 (CHR ''E'') 12,
      Text '' '', Text ''+'', QString_number 5 (CHR ''E'') 12,
      Text '' '', Text ''+'', QString_number 6 (CHR ''E'') 12,
      Text '' A'', Endl]"
proof -
  let ?r = "saveToFile sample_save_platform (Some (POLY_LINE sample_polyline)) ''out.sx''"
  have h: "globalShift sample_polyline = (0, 0, 0)" by (simp add: sample_save)
  have g: "getPoint sample_polyline 1 = (4, 5, 6)"
    by (simp add: sample_polyline_def new_block_polyline_def getPoint_def)
  have "file_text ?r \<noteq> None" by (simp add: sample_save)
  then obtain t where t: "file_text ?r = Some t" by blast
  note inst = C3_vertex_lines_are_scientific
    [of sample_save_platform "Some (POLY_LINE sample_polyline)" "''out.sx''" t sample_polyline 1]
  from inst t have "t = [Text ''C Generated by CloudCompare'', Endl] @
             concat (map (writeBlock sample_save_platform)
               [p \<leftarrow> collectProfiles (POLY_LINE sample_polyline). 2 \<le> length (indexes p)])"
    by blast
  then have a: "t = [Text ''C Generated by CloudCompare'', Endl] @
                    writeBlock sample_save_platform sample_polyline"
    by (simp add: sample_polyline_def)
  from inst h have c: "toGlobal3d sample_polyline (getPoint sample_polyline 1) =
                       getPoint sample_polyline 1" by blast
  with g have c': "toGlobal3d sample_polyline (4, 5, 6) = (4, 5, 6)" by simp
  from inst have "writeVertex sample_polyline 1 =
        concat (map (\<lambda>k. [Text '' ''] @
                       (if 0 \<le> u (getPoint sample_polyline 1) k then [Text ''+''] else []) @
                       [QString_number (u (toGlobal3d sample_polyline (getPoint sample_polyline 1)) k)
                          (CHR ''E'') 12])
                 [0, 1, 2]) @
        [Text '' A'', Endl]" by blast
  then have b: "writeVertex sample_polyline 1 =
     [Text '' '', Text ''+'', QString_number 4 (CHR ''E'') 12,
      Text '' '', Text ''+'', QString_number 5 (CHR ''E'') 12,
      Text '' '', Text ''+'', QString_number 6 (CHR ''E'') 12,
      Text '' A'', Endl]"
    unfolding g c' by (simp add: u_def)
  from h t a b c' g show ?thesis by simp
qed

text \<open>
  C4. \<^verbatim>\<open>MakeSinusxName\<close> replaces every space by an underscore, but the writer does not call
  it: line 126 sends \<^verbatim>\<open>poly->getName()\<close> itself. For the polyline named \<^verbatim>\<open>my curve\<close> the
  name line is written with its space, where the claim has \<^verbatim>\<open>CN my_curve\<close>.
\<close>

theorem C4_name_line_keeps_spaces:
  "file_text (saveToFile sample_save_platform (Some (POLY_LINE spaced_polyline)) ''out.sx'') =
     Some [Text ''C Generated by CloudCompare'', Endl,
           Text ''B S'', Endl,
           Text ''CN '', Text ''my curve'', Endl,
           Text ''CP 1 '', IntValue 0, Endl,
           Text ''CP '', IntValue 0, Endl,
           Text '' '', Text ''+'', QString_number 1 (CHR ''E'') 12,
           Text '' '', Text ''+'', QString_number 2 (CHR ''E'') 12,
           Text '' '', QString_number (- 3) (CHR ''E'') 12,
           Text '' A'', Endl,
           Text '' '', Text ''+'', QString_number 4 (CHR ''E'') 12,
           Text '' '', Text ''+'', QString_number 5 (CHR ''E'') 12,
           Text '' '', Text ''+'', QString_number 6 (CHR ''E'') 12,
           Text '' A'', Endl] \<and>
   MakeSinusxName (name spaced_polyline) = ''my_curve''"
  by (simp add: sample_save MakeSinusxName_def)

text \<open>
  C7. The shift found on the first vertex is added to every vertex of the load, but
  \<^verbatim>\<open>setGlobalShift\<close> is called on the polyline open at that moment only (line 412). A file with
  two curves around \<open>x = 10\<^sup>6\<close> is loaded and the result written back: the first curve comes
  out with its original coordinates, the second with the shifted ones (2 and 3 instead of
  1000002 and 1000003).
\<close>

theorem C7_second_curve_is_written_shifted:
  "file_text
     (saveToFile sample_save_platform
        (Some (HIERARCHY_OBJECT (map POLY_LINE (children
           (loadFile sample_platform []
              [''B S'', ''CP 1 0'', ''CP 0'', ''1000000 0 0 A'', ''1000001 0 0 A'',
               ''B S'', ''CP 1 0'', ''CP 0'', ''1000002 0 0 A'', ''1000003 0 0 A''])))))
        ''out.sx'') =
     Some [Text ''C Generated by CloudCompare'', Endl,
           Text ''B S'', Endl,
           Text ''CN '', Text ''Polyline'', Endl,
           Text ''CP 1 '', IntValue 0, Endl,
           Text ''CP '', IntValue 0, Endl,
           Text '' '', Text ''+'', QString_number 1000000 (CHR ''E'') 12,
           Text '' '', Text ''+'', QString_number 0 (CHR ''E'') 12,
           Text '' '', Text ''+'', QString_number 0 (CHR ''E'') 12,
           Text '' A'', Endl,
           Text '' '', Text ''+'', QString_number 1000001 (CHR ''E'') 12,
           Text '' '', Text ''+'', QString_number 0 (CHR ''E'') 12,
           Text '' '', Text ''+'', QString_number 0 (CHR ''E'') 12,
           Text '' A'', Endl,
           Text ''B S'', Endl,
           Text ''CN '', Text ''Polyline'', Endl,
           Text ''CP 1 '', IntValue 0, Endl,
           Text ''CP '', IntValue 0, Endl,
           Text '' '', Text ''+'', QString_number 2 (CHR ''E'') 12,
           Text '' '', Text ''+'', QString_number 0 (CHR ''E'') 12,
           Text '' '', Text ''+'', QString_number 0 (CHR ''E'') 12,
           Text '' A'', Endl,
           Text '' '', Text ''+'', QString_number 3 (CHR ''E'') 12,
           Text '' '', Text ''+'', QString_number 0 (CHR ''E'') 12,
           Text '' '', Text ''+'', QString_number 0 (CHR ''E'') 12,
           Text '' A'', Endl]"
  by (simp add: sample_run sample_save)

section \<open>Blank lines\<close>

lemma same_but_stream:
  "a\<lparr>stream := []\<rparr> = b\<lparr>stream := []\<rparr> \<longleftrightarrow> (\<exists>x. a = b\<lparr>stream := x\<rparr>)"
proof
  assume e: "a\<lparr>stream := []\<rparr> = b\<lparr>stream := []\<rparr>"
  have "a = (a\<lparr>stream := []\<rparr>)\<lparr>stream := stream a\<rparr>" by simp
  also have "\<dots> = (b\<lparr>stream := []\<rparr>)\<lparr>stream := stream a\<rparr>" by (simp only: e)
  finally have "a = b\<lparr>stream := stream a\<rparr>" by simp
  then show "\<exists>x. a = b\<lparr>stream := x\<rparr>" ..
next
  assume "\<exists>x. a = b\<lparr>stream := x\<rparr>"
  then show "a\<lparr>stream := []\<rparr> = b\<lparr>stream := []\<rparr>" by auto
qed

lemma cut_at_blank_cases:
  assumes "cut_at_blank post a b"
  obtains "a = b\<lparr>stream := stream b @ [] # post\<rparr>"
  | x where "currentLine b = []" and "a = b\<lparr>stream := x\<rparr>"
proof -
  from assms obtain x where x: "a = b\<lparr>stream := x\<rparr>"
    unfolding cut_at_blank_def same_but_stream by blast
  then have sx: "stream a = x" by simp
  from assms have "stream a = stream b @ [] # post \<or> currentLine b = []"
    unfolding cut_at_blank_def by blast
  then show thesis
  proof
    assume "stream a = stream b @ [] # post"
    with x sx have "a = b\<lparr>stream := stream b @ [] # post\<rparr>" by simp
    then show thesis by (rule that(1))
  next
    assume "currentLine b = []"
    then show thesis using x by (rule that(2))
  qed
qed

lemma cut_at_blankI1: "cut_at_blank post (b\<lparr>stream := stream b @ [] # post\<rparr>) b"
  by (simp add: cut_at_blank_def)

lemma cut_at_blankI2: "currentLine b = [] \<Longrightarrow> cut_at_blank post (b\<lparr>stream := x\<rparr>) b"
  by (simp add: cut_at_blank_def)

lemma readLine_cut:
  assumes "cut_at_blank post a b" and "currentLine b \<noteq> []"
  shows "cut_at_blank post (readLine a) (readLine b)"
proof -
  from assms have a: "a = b\<lparr>stream := stream b @ [] # post\<rparr>"
    by (auto elim: cut_at_blank_cases)
  show ?thesis
    unfolding a by (cases "stream b") (simp_all add: cut_at_blank_def readLine_def)
qed

lemma cut_lineNumber:
  assumes "cut_at_blank post a b"
  shows "cut_at_blank post (a\<lparr>lineNumber := x\<rparr>) (b\<lparr>lineNumber := x\<rparr>)"
  using assms
proof (cases rule: cut_at_blank_cases)
  case 1
  show ?thesis unfolding 1 by (simp add: cut_at_blank_def)
next
  case (2 y)
  show ?thesis unfolding 2(2) using 2(1) by (simp add: cut_at_blank_def)
qed

text \<open>Steps that do not enter the skipping loop neither read nor look at the stream.\<close>

lemma stream_update_last:
  "s\<lparr>stream := x, lineNumber := n\<rparr> = s\<lparr>lineNumber := n, stream := x\<rparr>"
  "s\<lparr>stream := x, cpIndex := c\<rparr> = s\<lparr>cpIndex := c, stream := x\<rparr>"
  by simp_all

lemma malformed_stream:
  "malformed (s\<lparr>stream := x\<rparr>) d = (malformed s d)\<lparr>stream := x\<rparr>"
  by (simp add: malformed_def warn_def)

lemma closeBlock_stream:
  "closeBlock env (s\<lparr>stream := x\<rparr>) = (closeBlock env s)\<lparr>stream := x\<rparr>"
  by (simp add: closeBlock_def split: option.splits)

lemma onBlockHeader_stream:
  "onBlockHeader env (s\<lparr>stream := x\<rparr>) = (onBlockHeader env s)\<lparr>stream := x\<rparr>"
  by (simp add: onBlockHeader_def closeBlock_stream Let_def malformed_def warn_def)

lemma cpCase0_stream:
  "cpCase0 env (s\<lparr>stream := x\<rparr>) p ts = (cpCase0 env s p ts)\<lparr>stream := x\<rparr>"
  by (simp add: cpCase0_def Let_def malformed_stream split: option.splits)

lemma cpCase2_stream:
  "cpCase2 env (s\<lparr>stream := x\<rparr>) p ts = (cpCase2 env s p ts)\<lparr>stream := x\<rparr>"
  by (simp add: cpCase2_def Let_def malformed_stream split: option.splits)

lemma cpCase1_stream:
  "curveType s \<noteq> CURVE_C \<Longrightarrow>
   cpCase1 env (s\<lparr>stream := x\<rparr>) p ts = on_state (\<lambda>t. t\<lparr>stream := x\<rparr>) (cpCase1 env s p ts)"
  using cpCase2_stream [where s = "s\<lparr>cpIndex := cpIndex s + 1\<rparr>" and env = env and x = x
      and p = p and ts = ts]
  by (cases "curveType s")
     (simp_all add: cpCase1_def assert_failed_def malformed_stream stream_update_last
               split: option.splits)

lemma onCP_stream:
  "\<not> (cpIndex s = 1 \<and> curveType s = CURVE_C) \<Longrightarrow>
   onCP env (s\<lparr>stream := x\<rparr>) p = on_state (\<lambda>t. t\<lparr>stream := x\<rparr>) (onCP env s p)"
  by (auto simp: onCP_def Let_def cpCase0_stream cpCase1_stream cpCase2_stream)

lemma onVertex_stream:
  "onVertex env (s\<lparr>stream := x\<rparr>) p = on_state (\<lambda>t. t\<lparr>stream := x\<rparr>) (onVertex env s p)"
  by (simp add: onVertex_def firstVertexShift_def Let_def malformed_stream warn_def
           split: option.splits prod.splits)

lemma processLine_stream:
  assumes "\<not> skips_values s"
  shows "processLine env (s\<lparr>stream := x\<rparr>) =
           on_state (\<lambda>t. t\<lparr>stream := x\<rparr>) (processLine env s)"
proof -
  let ?s = "s\<lparr>lineNumber := lineNumber s + 1\<rparr>"
  have cp: "onCP env (?s\<lparr>stream := x\<rparr>) p = on_state (\<lambda>t. t\<lparr>stream := x\<rparr>) (onCP env ?s p)"
    if "startsWith (currentLine s) ''CP''" and "currentPoly s = Some p" for p
    using assms that by (intro onCP_stream) (auto simp: skips_values_def)
  show ?thesis
    using cp onBlockHeader_stream [where s = ?s and env = env and x = x]
      onVertex_stream [where s = ?s and env = env and x = x]
    by (auto simp: processLine_def Let_def stream_update_last split: option.splits)
qed

lemma cpCase0_reading:
  "stream (cpCase0 env s p ts) = stream s" "currentLine (cpCase0 env s p ts) = currentLine s"
  by (auto simp: cpCase0_def Let_def malformed_def warn_def split: option.splits)

lemma cpCase2_reading:
  "stream (cpCase2 env s p ts) = stream s" "currentLine (cpCase2 env s p ts) = currentLine s"
  by (auto simp: cpCase2_def Let_def malformed_def warn_def split: option.splits)

lemma cpCase1_reading:
  assumes "curveType s \<noteq> CURVE_C" and "cpCase1 env s p ts = Continue t"
  shows "stream t = stream s" and "currentLine t = currentLine s"
  using assms cpCase2_reading [of env "s\<lparr>cpIndex := cpIndex s + 1\<rparr>" p ts]
  by (cases "curveType s";
      auto simp: cpCase1_def assert_failed_def malformed_def warn_def
           split: option.splits if_splits)+

lemma onCP_reading:
  assumes "\<not> (cpIndex s = 1 \<and> curveType s = CURVE_C)" and "onCP env s p = Continue t"
  shows "stream t = stream s" and "currentLine t = currentLine s"
  using assms cpCase1_reading [of s env p _ t]
  by (auto simp: onCP_def Let_def cpCase0_reading cpCase2_reading split: if_splits)

lemma onBlockHeader_reading:
  "stream (onBlockHeader env s) = stream s" "currentLine (onBlockHeader env s) = currentLine s"
  by (auto simp: onBlockHeader_def closeBlock_def Let_def malformed_def warn_def
           split: option.splits)

lemma onVertex_reading:
  assumes "onVertex env s p = Continue t"
  shows "stream t = stream s" and "currentLine t = currentLine s"
  using assms
  by (auto simp: onVertex_def firstVertexShift_def Let_def malformed_def warn_def
           split: option.splits if_splits prod.splits)

lemma processLine_reading:
  assumes "\<not> skips_values s" and "processLine env s = Continue t"
  shows "stream t = stream s" and "currentLine t = currentLine s"
proof -
  let ?s = "s\<lparr>lineNumber := lineNumber s + 1\<rparr>"
  have cp: "stream t = stream s \<and> currentLine t = currentLine s"
    if "startsWith (currentLine s) ''CP''" and "currentPoly s = Some p"
      and "onCP env ?s p = Continue t" for p
    using assms(1) that onCP_reading [of ?s env p t] by (auto simp: skips_values_def)
  from assms(2) show "stream t = stream s" and "currentLine t = currentLine s"
    using cp onBlockHeader_reading [of env ?s] onVertex_reading [of env ?s _ t]
    by (auto simp: processLine_def Let_def split: option.splits if_splits)
qed

lemma cut_at_blank_fields:
  assumes "cut_at_blank post a b"
  shows "currentLine a = currentLine b" and "streamPos a = streamPos b"
    and "lineNumber a = lineNumber b" and "currentPoly a = currentPoly b"
    and "cpIndex a = cpIndex b" and "curveType a = curveType b"
    and "result a = result b" and "container a = container b" and "warnings a = warnings b"
  using assms by (auto elim!: cut_at_blank_cases)

lemma cut_cpIndex:
  assumes "cut_at_blank post a b"
  shows "cut_at_blank post (a\<lparr>cpIndex := x\<rparr>) (b\<lparr>cpIndex := x\<rparr>)"
  using assms
proof (cases rule: cut_at_blank_cases)
  case 1
  show ?thesis unfolding 1 by (simp add: cut_at_blank_def)
next
  case (2 y)
  show ?thesis unfolding 2(2) using 2(1) by (simp add: cut_at_blank_def)
qed

lemma skipValues_cut:
  assumes "cut_at_blank post a b"
  shows "snd (skipValues env a k) = snd (skipValues env b k) \<and>
         cut_at_blank post (fst (skipValues env a k)) (fst (skipValues env b k))"
  using assms
proof (induction env b k arbitrary: a rule: skipValues.induct)
  case (1 env b k)
  note same = cut_at_blank_fields [OF "1.prems"]
  show ?case
  proof (cases "k < 16 \<and> currentLine b \<noteq> [] \<and> \<not> file_error env (streamPos b)")
    case False
    then have "skipValues env b k = (b, k)" by (subst skipValues.simps) auto
    moreover from False same have "skipValues env a k = (a, k)"
      by (subst skipValues.simps) auto
    ultimately show ?thesis using "1.prems" by simp
  next
    case True
    let ?b2 = "(readLine b)\<lparr>lineNumber := lineNumber (readLine b) + 1\<rparr>"
    let ?a2 = "(readLine a)\<lparr>lineNumber := lineNumber (readLine a) + 1\<rparr>"
    let ?k2 = "k + int (length (split (isSpace env) (currentLine ?b2)))"
    have eb: "skipValues env b k = skipValues env ?b2 ?k2"
      using True by (subst skipValues.simps) (simp add: Let_def)
    from True have "cut_at_blank post (readLine a) (readLine b)"
      by (intro readLine_cut "1.prems") simp
    from cut_lineNumber [OF this, of "lineNumber (readLine b) + 1"] same
    have cut2: "cut_at_blank post ?a2 ?b2" by simp
    from cut_at_blank_fields(1) [OF cut2] have "currentLine ?a2 = currentLine ?b2" .
    then have ea: "skipValues env a k = skipValues env ?a2 ?k2"
      using True same by (subst skipValues.simps) (simp add: Let_def)
    from "1.IH" [OF True refl refl refl cut2] show ?thesis unfolding ea eb .
  qed
qed

lemma processLine_skips:
  assumes "skips_values s" and "currentPoly s = Some p"
  shows "processLine env s =
           (if assertions env \<and>
               snd (skipValues env (s\<lparr>lineNumber := lineNumber s + 1\<rparr>)
                      (int (length (split (isSpace env) (currentLine s))) - 1)) \<noteq> 16
            then assert_failed
                   (fst (skipValues env (s\<lparr>lineNumber := lineNumber s + 1\<rparr>)
                           (int (length (split (isSpace env) (currentLine s))) - 1)))
            else Continue ((fst (skipValues env (s\<lparr>lineNumber := lineNumber s + 1\<rparr>)
                              (int (length (split (isSpace env) (currentLine s))) - 1)))
                           \<lparr>cpIndex := 2\<rparr>))"
proof -
  from assms(1) have cp: "startsWith (currentLine s) ''CP''" and ix: "cpIndex s = 1"
    and ct: "curveType s = CURVE_C" by (auto simp: skips_values_def)
  show ?thesis
    using assms(2) cp ix ct startsWith_CP [OF cp]
    by (simp add: processLine_def onCP_def cpCase1_def Let_def case_prod_beta)
qed

lemma processLine_cut:
  assumes "cut_at_blank post a b"
  shows "(\<exists>r. processLine env a = Return r \<and> processLine env b = Return r) \<or>
         (\<exists>a' b'. processLine env a = Continue a' \<and> processLine env b = Continue b' \<and>
                  cut_at_blank post a' b')"
proof -
  note same = cut_at_blank_fields [OF assms]
  from assms obtain x where ax: "a = b\<lparr>stream := x\<rparr>"
    unfolding cut_at_blank_def same_but_stream by blast
  show ?thesis
  proof (cases "skips_values b")
    case False
    from processLine_stream [OF False, of env x]
    have pa: "processLine env a = on_state (\<lambda>t. t\<lparr>stream := x\<rparr>) (processLine env b)"
      by (simp add: ax)
    show ?thesis
    proof (cases "processLine env b")
      case (Return r)
      with pa show ?thesis by simp
    next
      case (Continue t)
      from processLine_reading [OF False Continue]
      have t: "stream t = stream b" "currentLine t = currentLine b" .
      from assms have "x = stream b @ [] # post \<or> currentLine b = []"
        unfolding cut_at_blank_def ax by simp
      with t have "cut_at_blank post (t\<lparr>stream := x\<rparr>) t" by (simp add: cut_at_blank_def)
      with pa Continue show ?thesis by simp
    qed
  next
    case True
    then have sa: "skips_values a" using same by (simp add: skips_values_def)
    from True obtain p where p: "currentPoly b = Some p" by (auto simp: skips_values_def)
    then have pa: "currentPoly a = Some p" using same by simp
    let ?k = "int (length (split (isSpace env) (currentLine b))) - 1"
    from cut_lineNumber [OF assms, of "lineNumber b + 1"]
    have "cut_at_blank post (a\<lparr>lineNumber := lineNumber b + 1\<rparr>) (b\<lparr>lineNumber := lineNumber b + 1\<rparr>)" .
    from skipValues_cut [OF this, of env ?k]
    have n: "snd (skipValues env (a\<lparr>lineNumber := lineNumber b + 1\<rparr>) ?k) =
             snd (skipValues env (b\<lparr>lineNumber := lineNumber b + 1\<rparr>) ?k)"
      and c: "cut_at_blank post (fst (skipValues env (a\<lparr>lineNumber := lineNumber b + 1\<rparr>) ?k))
            (fst (skipValues env (b\<lparr>lineNumber := lineNumber b + 1\<rparr>) ?k))" by simp_all
    from cut_at_blank_fields(7-9) [OF c]
    have "assert_failed (fst (skipValues env (a\<lparr>lineNumber := lineNumber b + 1\<rparr>) ?k)) =
          assert_failed (fst (skipValues env (b\<lparr>lineNumber := lineNumber b + 1\<rparr>) ?k))"
      by (simp add: assert_failed_def)
    with n cut_cpIndex [OF c, of 2] processLine_skips [OF True p, of env]
      processLine_skips [OF sa pa, of env] same
    show ?thesis by (simp add: assert_failed_def)
  qed
qed

lemma finish_stream: "finish env (s\<lparr>stream := x\<rparr>) = finish env s"
  by (simp add: finish_def Let_def split: option.splits)

lemma finish_cut: "cut_at_blank post a b \<Longrightarrow> finish env a = finish env b"
  unfolding cut_at_blank_def same_but_stream by (auto simp: finish_stream)

lemma readLoop_cut:
  "cut_at_blank post a b \<Longrightarrow> readLoop env a = readLoop env b"
proof (induction env b arbitrary: a rule: readLoop.induct)
  case (1 env b)
  note same = cut_at_blank_fields [OF "1.prems"]
  show ?case
  proof (cases "currentLine b \<noteq> [] \<and> \<not> file_error env (streamPos b)")
    case False
    then have "readLoop env b = finish env b" by (subst readLoop.simps) auto
    moreover from False same have "readLoop env a = finish env a"
      by (subst readLoop.simps) auto
    ultimately show ?thesis using finish_cut [OF "1.prems"] by simp
  next
    case True
    then have cut: "cut_at_blank post (readLine a) (readLine b)"
      by (intro readLine_cut "1.prems") simp
    from True same have ca: "currentLine a \<noteq> [] \<and> \<not> file_error env (streamPos a)" by simp
    from processLine_cut [OF cut, of env] show ?thesis
    proof (elim disjE exE conjE)
      fix r assume "processLine env (readLine a) = Return r"
        and "processLine env (readLine b) = Return r"
      with True ca show ?thesis by (subst (1 2) readLoop.simps) simp
    next
      fix a' b' assume pa: "processLine env (readLine a) = Continue a'"
        and pb: "processLine env (readLine b) = Continue b'"
        and c: "cut_at_blank post a' b'"
      from pa ca have "readLoop env a = readLoop env a'" by (subst readLoop.simps) simp
      moreover from pb True have "readLoop env b = readLoop env b'"
        by (subst readLoop.simps) simp
      ultimately show ?thesis using "1.IH" [OF True pb c] by simp
    qed
  qed
qed

text \<open>
  C2 (as amended). A blank line causes no diagnostic and changes nothing but the line
  counter, and it ends the reading: the main loop (and the loop skipping the values of a
  circle) runs while the line just read is not empty. Whatever follows the first blank line
  of the stream is not processed, and the open block is closed as at the end of the stream:
  the load returns what it returns on the lines before the blank line alone.
\<close>

theorem C2_blank_line_ends_the_load:
  "loadFile env children0 (pre @ [] # post) = loadFile env children0 pre"
proof -
  have "cut_at_blank post (initial_state children0 (pre @ [] # post)) (initial_state children0 pre)"
    by (simp add: cut_at_blank_def initial_state_def)
  from readLoop_cut [OF this] show ?thesis by (simp add: loadFile_def)
qed

text \<open>
  C2 as stated fails: the vertex line after the blank line is not processed. Without the
  blank line the block gets its vertex and is attached; with it the block is empty and is
  dropped.
\<close>

theorem C2_counterexample:
  "children (loadFile sample_platform [] [''B S'', '''', ''1 2 3 A'']) = [] \<and>
   map (points \<circ> vertices) (children (loadFile sample_platform [] [''B S'', ''1 2 3 A'']))
     = [[(1, 2, 3)]]"
  by (simp add: sample_run)

theorem C2_witness:
  "loadFile sample_platform [] ([''B S'', ''1 2 3 A''] @ [] # [''4 5 6 A'']) =
     loadFile sample_platform [] [''B S'', ''1 2 3 A''] \<and>
   map (points \<circ> vertices)
     (children (loadFile sample_platform [] [''B S'', ''1 2 3 A'', '''', ''4 5 6 A'']))
     = [[(1, 2, 3)]]"
proof -
  have "map (points \<circ> vertices) (children (loadFile sample_platform [] [''B S'', ''1 2 3 A'']))
          = [[(1, 2, 3)]]"
    by (simp add: sample_run)
  with C2_blank_line_ends_the_load [of sample_platform "[]" "[''B S'', ''1 2 3 A'']" "[''4 5 6 A'']"]
  show ?thesis by simp
qed

section \<open>The global shift\<close>

lemma startsWith_B: "startsWith l ''B'' \<Longrightarrow> \<not> startsWith l ''C ''"
  by (cases l) (auto simp: startsWith_def)

lemma unshifted_fields [simp]:
  "file_open (unshifted env) = file_open env"
  "file_error (unshifted env) = file_error env"
  "isSpace (unshifted env) = isSpace env"
  "toInt (unshifted env) = toInt env"
  "toDouble (unshifted env) = toDouble env"
  "reserve (unshifted env) = reserve env"
  "resize (unshifted env) = resize env"
  "addPointIndex (unshifted env) = addPointIndex env"
  "fromDouble (unshifted env) = fromDouble env"
  "assertions (unshifted env) = assertions env"
  "HandleGlobalShift (unshifted env) P S = (False, S)"
  by (simp_all add: unshifted_def)

lemma exact_fields [simp]:
  "file_open (exact env) = file_open env"
  "file_error (exact env) = file_error env"
  "isSpace (exact env) = isSpace env"
  "toInt (exact env) = toInt env"
  "toDouble (exact env) = toDouble env"
  "reserve (exact env) = reserve env"
  "resize (exact env) = resize env"
  "addPointIndex (exact env) = addPointIndex env"
  "HandleGlobalShift (exact env) = HandleGlobalShift env"
  "assertions (exact env) = assertions env"
  "fromDouble (exact env) = (\<lambda>x. x)"
  by (simp_all add: exact_def)

lemma fromArray_exact: "fromDouble env = (\<lambda>x. x) \<Longrightarrow> fromArray env P = P"
  by (cases P) (simp add: fromArray_def)

lemma without_shift_fields [simp]:
  "name (without_shift sh p) = name p"
  "indexes (without_shift sh p) = indexes p"
  "isClosed (without_shift sh p) = isClosed p"
  "isVisible (without_shift sh p) = isVisible p"
  "is2DMode (without_shift sh p) = is2DMode p"
  "globalShift (without_shift sh p) = (0, 0, 0)"
  "metaUpDir (without_shift sh p) = metaUpDir p"
  "metaConstAltitude (without_shift sh p) = metaConstAltitude p"
  "capacity (vertices (without_shift sh p)) = capacity (vertices p)"
  "isEnabled (vertices (without_shift sh p)) = isEnabled (vertices p)"
  "points (vertices (without_shift sh p)) = map (\<lambda>P. vsub P sh) (points (vertices p))"
  by (simp_all add: without_shift_def)

lemma without_shift_state_fields [simp]:
  "stream (without_shift_state sh c s) = stream s"
  "streamPos (without_shift_state sh c s) = streamPos s"
  "currentLine (without_shift_state sh c s) = currentLine s"
  "lineNumber (without_shift_state sh c s) = lineNumber s"
  "curveType (without_shift_state sh c s) = curveType s"
  "cpIndex (without_shift_state sh c s) = cpIndex s"
  "result (without_shift_state sh c s) = result s"
  "firstVertex (without_shift_state sh c s) = firstVertex s"
  "Pshift (without_shift_state sh c s) = (0, 0, 0)"
  "container (without_shift_state sh c s) = c"
  "currentPoly (without_shift_state sh c s) = map_option (without_shift sh) (currentPoly s)"
  "warnings (without_shift_state sh c s) = filter is_corruption (warnings s)"
  by (simp_all add: without_shift_state_def)

lemma malformed_without_shift:
  "is_corruption d \<Longrightarrow>
   malformed (without_shift_state sh c s) d = without_shift_state sh c (malformed s d)"
  by (simp add: malformed_def warn_def without_shift_state_def)

lemma finalized_without_shift:
  "finalized (unshifted env) pos (without_shift sh p) =
     map_option (without_shift sh) (finalized env pos p)"
  by (simp add: finalized_def Let_def without_shift_def split: option.splits)

lemma closing_without_shift:
  "closing (unshifted env) (without_shift_state sh c s) = map (without_shift sh) (closing env s)"
  by (simp add: closing_def finalized_without_shift split: option.splits)

lemma closeBlock_without_shift:
  "closeBlock (unshifted env) (without_shift_state sh c s) =
     without_shift_state sh (c @ map (without_shift sh) (closing env s)) (closeBlock env s)"
  by (simp add: closeBlock_def closing_def finalized_without_shift without_shift_state_def
           split: option.splits)

lemma new_block_without_shift: "without_shift sh new_block_polyline = new_block_polyline"
  by (simp add: without_shift_def new_block_polyline_def)

lemma onBlockHeader_without_shift:
  "onBlockHeader (unshifted env) (without_shift_state sh c s) =
     without_shift_state sh (c @ map (without_shift sh) (closing env s)) (onBlockHeader env s)"
  by (simp add: onBlockHeader_def closeBlock_without_shift Let_def)
     (simp add: without_shift_state_def malformed_def warn_def new_block_without_shift)

lemma cpCase0_without_shift:
  "cpCase0 (unshifted env) (without_shift_state sh c s) (without_shift sh p) ts =
     without_shift_state sh c (cpCase0 env s p ts)"
  by (simp add: cpCase0_def Let_def malformed_without_shift split: option.splits)

lemma cpCase2_without_shift:
  "cpCase2 (unshifted env) (without_shift_state sh c s) (without_shift sh p) ts =
     without_shift_state sh c (cpCase2 env s p ts)"
  by (simp add: cpCase2_def Let_def malformed_without_shift split: option.splits)

lemma without_shift_state_update:
  "(without_shift_state sh c s)\<lparr>lineNumber := n\<rparr> = without_shift_state sh c (s\<lparr>lineNumber := n\<rparr>)"
  "(without_shift_state sh c s)\<lparr>cpIndex := i\<rparr> = without_shift_state sh c (s\<lparr>cpIndex := i\<rparr>)"
  by (simp_all add: without_shift_state_def)

lemma readLine_without_shift:
  "readLine (without_shift_state sh c s) = without_shift_state sh c (readLine s)"
  by (simp add: readLine_def without_shift_state_def split: list.splits)

lemma skipValues_without_shift:
  "skipValues (unshifted env) (without_shift_state sh c s) k =
     (without_shift_state sh c (fst (skipValues env s k)), snd (skipValues env s k))"
proof (induction env s k rule: skipValues.induct)
  case (1 env s k)
  show ?case
  proof (cases "k < 16 \<and> currentLine s \<noteq> [] \<and> \<not> file_error env (streamPos s)")
    case False
    then have "skipValues env s k = (s, k)" by (subst skipValues.simps) auto
    moreover from False
    have "skipValues (unshifted env) (without_shift_state sh c s) k =
            (without_shift_state sh c s, k)"
      by (subst skipValues.simps) auto
    ultimately show ?thesis by simp
  next
    case True
    let ?s2 = "(readLine s)\<lparr>lineNumber := lineNumber (readLine s) + 1\<rparr>"
    let ?k2 = "k + int (length (split (isSpace env) (currentLine ?s2)))"
    have e: "skipValues env s k = skipValues env ?s2 ?k2"
      using True by (subst skipValues.simps) (simp add: Let_def)
    have "skipValues (unshifted env) (without_shift_state sh c s) k =
            skipValues (unshifted env) (without_shift_state sh c ?s2) ?k2"
      using True
      by (subst skipValues.simps)
         (simp add: Let_def readLine_without_shift without_shift_state_update)
    with "1.IH" [OF True refl refl refl] e show ?thesis by simp
  qed
qed

lemma assert_failed_without_shift:
  "assert_failed (without_shift_state sh c s) = without_shift_step sh c (assert_failed s)"
  by (simp add: assert_failed_def)

lemma cpCase1_without_shift:
  "cpCase1 (unshifted env) (without_shift_state sh c s) (without_shift sh p) ts =
     without_shift_step sh c (cpCase1 env s p ts)"
  using cpCase2_without_shift [where s = "s\<lparr>cpIndex := cpIndex s + 1\<rparr>" and env = env
      and sh = sh and c = c and p = p and ts = ts]
  by (cases "curveType s")
     (simp_all add: cpCase1_def Let_def case_prod_beta malformed_without_shift
                    skipValues_without_shift assert_failed_without_shift
                    without_shift_state_update split: option.splits)

lemma onCP_without_shift:
  "onCP (unshifted env) (without_shift_state sh c s) (without_shift sh p) =
     without_shift_step sh c (onCP env s p)"
  by (simp add: onCP_def Let_def cpCase0_without_shift cpCase1_without_shift
                cpCase2_without_shift)

text \<open>Once the first vertex has been seen, a step of a platform that stores coordinates as
  they are commutes with undoing the shift.\<close>

lemma vsub_vadd [simp]: "vsub (vadd P sh) sh = P" "vadd (vsub P sh) sh = P" "vadd P (0, 0, 0) = P"
  by (cases P; cases sh; simp add: vsub_def vadd_def)+

lemma onVertex_without_shift:
  assumes "\<not> firstVertex s" and "Pshift s = sh" and "fromDouble env = (\<lambda>x. x)"
  shows "onVertex (unshifted env) (without_shift_state sh c s) (without_shift sh p) =
           without_shift_step sh c (onVertex env s p)"
  using assms
  by (simp add: onVertex_def firstVertexShift_def Let_def malformed_without_shift
                fromArray_exact
           split: option.splits)

lemma processLine_without_shift:
  assumes "\<not> firstVertex s" and "Pshift s = sh" and "fromDouble env = (\<lambda>x. x)"
  shows "processLine (unshifted env) (without_shift_state sh c s) =
           (case processLine env s of
              Return r \<Rightarrow> Return (r\<lparr>children := c, messages := filter is_corruption (messages r)\<rparr>)
            | Continue t \<Rightarrow>
                Continue (without_shift_state sh
                  (c @ map (without_shift sh) (drop (length (container s)) (container t))) t))"
proof -
  let ?s = "s\<lparr>lineNumber := lineNumber s + 1\<rparr>"
  have a: "\<not> firstVertex ?s" "Pshift ?s = sh" using assms by simp_all
  have cl: "closing env ?s = closing env s" by (simp add: closing_def cong: option.case_cong)
  have v: "onVertex env ?s p = Continue t \<Longrightarrow> container t = container s" for p t
    using onVertex_container [of env ?s p t] by simp
  have cp: "onCP env ?s p = Continue t \<Longrightarrow> container t = container s" for p t
    using onCP_container [of env ?s p t] by simp
  have step: "without_shift_step sh c x =
      (case x of
         Return r \<Rightarrow> Return (r\<lparr>children := c, messages := filter is_corruption (messages r)\<rparr>)
       | Continue t \<Rightarrow>
           Continue (without_shift_state sh
             (c @ map (without_shift sh) (drop (length (container s)) (container t))) t))"
    if "\<And>t. x = Continue t \<Longrightarrow> container t = container s" for x
    using that by (cases x) simp_all
  show ?thesis
  proof (cases "startsWith (currentLine s) ''C ''")
    case True
    then show ?thesis by (simp add: processLine_def Let_def without_shift_state_def)
  next
    case c: False
    show ?thesis
    proof (cases "startsWith (currentLine s) ''B''")
      case True
      with c show ?thesis
        by (simp add: processLine_def Let_def without_shift_state_update
                      onBlockHeader_without_shift onBlockHeader_container cl)
    next
      case b: False
      show ?thesis
      proof (cases "currentPoly s")
        case None
        with c b show ?thesis by (simp add: processLine_def Let_def without_shift_state_def)
      next
        case (Some p)
        show ?thesis
        proof (cases "startsWith (currentLine s) ''CN''")
          case True
          with c b Some show ?thesis
            by (simp add: processLine_def Let_def without_shift_state_def without_shift_def)
        next
          case n: False
          show ?thesis
          proof (cases "startsWith (currentLine s) ''CP''")
            case True
            from cp have "without_shift_step sh c (onCP env ?s p) =
                (case onCP env ?s p of
                   Return r \<Rightarrow>
                     Return (r\<lparr>children := c, messages := filter is_corruption (messages r)\<rparr>)
                 | Continue t \<Rightarrow>
                     Continue (without_shift_state sh
                       (c @ map (without_shift sh) (drop (length (container s)) (container t))) t))"
              by (intro step)
            with c b n Some True show ?thesis
              by (simp add: processLine_def Let_def without_shift_state_update
                            onCP_without_shift)
          next
            case False
            from v have "without_shift_step sh c (onVertex env ?s p) =
                (case onVertex env ?s p of
                   Return r \<Rightarrow>
                     Return (r\<lparr>children := c, messages := filter is_corruption (messages r)\<rparr>)
                 | Continue t \<Rightarrow>
                     Continue (without_shift_state sh
                       (c @ map (without_shift sh) (drop (length (container s)) (container t))) t))"
              by (intro step)
            with c b n Some False onVertex_without_shift [OF a assms(3), of c p]
            show ?thesis
              by (simp add: processLine_def Let_def without_shift_state_update)
          qed
        qed
      qed
    qed
  qed
qed

lemma firstVertex_stays_off:
  assumes "processLine env s = Continue t" and "\<not> firstVertex s"
  shows "\<not> firstVertex t" and "Pshift t = Pshift s"
proof -
  let ?s = "s\<lparr>lineNumber := lineNumber s + 1\<rparr>"
  have bh: "firstVertex (onBlockHeader env ?s) = firstVertex s"
    "Pshift (onBlockHeader env ?s) = Pshift s"
    by (auto simp: onBlockHeader_def closeBlock_def Let_def malformed_def warn_def
             split: option.splits)
  have c0: "firstVertex (cpCase0 env x p ts) = firstVertex x"
    "Pshift (cpCase0 env x p ts) = Pshift x" for x p ts
    by (auto simp: cpCase0_def Let_def malformed_def warn_def split: option.splits)
  have c2: "firstVertex (cpCase2 env x p ts) = firstVertex x"
    "Pshift (cpCase2 env x p ts) = Pshift x" for x p ts
    by (auto simp: cpCase2_def Let_def malformed_def warn_def split: option.splits)
  have c1: "cpCase1 env x p ts = Continue y \<Longrightarrow>
            firstVertex y = firstVertex x \<and> Pshift y = Pshift x" for x p ts y
    by (cases "curveType x")
       (auto simp: cpCase1_def assert_failed_def Let_def case_prod_beta malformed_def warn_def c2
             split: option.splits if_splits)
  have cp: "onCP env ?s p = Continue y \<Longrightarrow>
            firstVertex y = firstVertex s \<and> Pshift y = Pshift s" for p y
    using c0 [of ?s p] c1 [of ?s p _ y] c2 [of ?s p]
    by (auto simp: onCP_def Let_def split: if_splits)
  have vx: "onVertex env ?s p = Continue t \<Longrightarrow> \<not> firstVertex t \<and> Pshift t = Pshift s" for p
    using assms(2)
    by (auto simp: onVertex_def firstVertexShift_def Let_def malformed_def warn_def
             split: option.splits if_splits)
  from assms show "\<not> firstVertex t" and "Pshift t = Pshift s"
    using bh cp [of _ t] vx
    by (auto simp: processLine_def Let_def split: if_splits option.splits)
qed

lemma finalized_globalShift:
  "finalized env pos p = Some q \<Longrightarrow> globalShift q = globalShift p"
  by (auto simp: finalized_def Let_def split: if_splits option.splits)

lemma closing_globalShift:
  assumes "q \<in> set (closing env s)"
  shows "\<exists>p. currentPoly s = Some p \<and> globalShift q = globalShift p"
proof -
  from assms closing_cases [of env s] obtain p
    where p: "currentPoly s = Some p" and f: "finalized env (streamPos s) p = Some q"
    by auto
  from finalized_globalShift [OF f] p show ?thesis by blast
qed

text \<open>After the first vertex, the shift record of the open polyline is the one it had, and
  a polyline opened later has none.\<close>

lemma cpCase0_globalShift:
  "currentPoly (cpCase0 env s p ts) = Some p' \<Longrightarrow> currentPoly s = Some p \<Longrightarrow>
   globalShift p' = globalShift p"
  by (auto simp: cpCase0_def Let_def malformed_def warn_def split: option.splits if_splits)

lemma cpCase2_globalShift:
  "currentPoly (cpCase2 env s p ts) = Some p' \<Longrightarrow> currentPoly s = Some p \<Longrightarrow>
   globalShift p' = globalShift p"
  by (auto simp: cpCase2_def Let_def malformed_def warn_def split: option.splits if_splits)

lemma cpCase1_globalShift:
  "cpCase1 env s p ts = Continue t \<Longrightarrow> currentPoly t = Some p' \<Longrightarrow> currentPoly s = Some p \<Longrightarrow>
   globalShift p' = globalShift p"
  using cpCase2_globalShift [where s = "s\<lparr>cpIndex := cpIndex s + 1\<rparr>" and env = env
      and p = p and ts = ts and p' = p']
  by (cases "curveType s")
     (auto simp: cpCase1_def assert_failed_def Let_def case_prod_beta malformed_def warn_def
           split: option.splits if_splits)

lemma onCP_globalShift:
  "onCP env s p = Continue t \<Longrightarrow> currentPoly t = Some p' \<Longrightarrow> currentPoly s = Some p \<Longrightarrow>
   globalShift p' = globalShift p"
  using cpCase0_globalShift [of env s p _ p'] cpCase1_globalShift [of env s p _ t p']
    cpCase2_globalShift [of env s p _ p']
  by (auto simp: onCP_def Let_def split: if_splits)

lemma onVertex_globalShift:
  "onVertex env s p = Continue t \<Longrightarrow> \<not> firstVertex s \<Longrightarrow> currentPoly t = Some p' \<Longrightarrow>
   currentPoly s = Some p \<Longrightarrow> globalShift p' = globalShift p"
  by (auto simp: onVertex_def firstVertexShift_def Let_def malformed_def warn_def
           split: option.splits if_splits)

lemma processLine_globalShift:
  assumes "processLine env s = Continue t" and "\<not> firstVertex s"
  shows "(startsWith (currentLine s) ''B'' \<and> container t = container s @ closing env s \<and>
          (\<forall>p'. currentPoly t = Some p' \<longrightarrow> globalShift p' = (0, 0, 0))) \<or>
         (\<not> startsWith (currentLine s) ''B'' \<and> container t = container s \<and>
          (\<forall>p'. currentPoly t = Some p' \<longrightarrow>
             (\<exists>p. currentPoly s = Some p \<and> globalShift p' = globalShift p)))"
proof (cases "startsWith (currentLine s) ''B''")
  case True
  let ?s = "s\<lparr>lineNumber := lineNumber s + 1\<rparr>"
  have cl: "closing env ?s = closing env s" by (simp add: closing_def cong: option.case_cong)
  from True startsWith_B [OF True] assms(1) have t: "t = onBlockHeader env ?s"
    by (auto simp: processLine_def Let_def)
  from onBlockHeader_container [of env ?s]
  have "container t = container s @ closing env s"
    and "\<forall>p'. currentPoly t = Some p' \<longrightarrow> globalShift p' = (0, 0, 0)"
    unfolding t cl by (auto simp: new_block_polyline_def)
  with True show ?thesis by blast
next
  case False
  let ?s = "s\<lparr>lineNumber := lineNumber s + 1\<rparr>"
  from False assms(1) processLine_container [OF assms(1)]
  have c: "container t = container s" by auto
  have "\<exists>p. currentPoly s = Some p \<and> globalShift p' = globalShift p"
    if "currentPoly t = Some p'" for p'
    using False assms that onCP_globalShift [of env ?s _ t p']
      onVertex_globalShift [of env ?s _ t p']
    by (auto simp: processLine_def Let_def split: if_splits option.splits)
  with c False show ?thesis by blast
qed

lemma finish_without_shift:
  "finish (unshifted env) (without_shift_state sh c s) =
     \<lparr>status = result s, children = c @ map (without_shift sh) (closing env s),
      messages = filter is_corruption (warnings s), aborted = False\<rparr>"
  by (simp add: finish_def closing_def Let_def finalized_without_shift split: option.splits)

lemma readLoop_without_shift:
  assumes "\<not> firstVertex s" and "Pshift s = sh"
    and "\<forall>p. currentPoly s = Some p \<longrightarrow> globalShift p = sh \<or> globalShift p = (0, 0, 0)"
    and "fromDouble env = (\<lambda>x. x)"
  shows "\<exists>new. children (readLoop env s) = container s @ new \<and>
           readLoop (unshifted env) (without_shift_state sh c s) =
             \<lparr>status = status (readLoop env s),
              children = c @ map (without_shift sh) new,
              messages = filter is_corruption (messages (readLoop env s)),
              aborted = aborted (readLoop env s)\<rparr> \<and>
           (\<forall>q \<in> set new. globalShift q = sh \<or> globalShift q = (0, 0, 0)) \<and>
           (\<forall>q \<in> set (tl new). globalShift q = (0, 0, 0)) \<and>
           ((\<forall>p. currentPoly s = Some p \<longrightarrow> globalShift p = (0, 0, 0)) \<longrightarrow>
              (\<forall>q \<in> set new. globalShift q = (0, 0, 0)))"
  using assms
proof (induction env s arbitrary: c rule: readLoop.induct)
  case (1 env s)
  note nf = "1.prems"(1) and sh = "1.prems"(2) and k = "1.prems"(3) and ex = "1.prems"(4)
  let ?W = "without_shift_state sh"
  show ?case
  proof (cases "currentLine s \<noteq> [] \<and> \<not> file_error env (streamPos s)")
    case False
    then have a: "readLoop env s = finish env s" by (subst readLoop.simps) auto
    from False have b: "readLoop (unshifted env) (?W c s) = finish (unshifted env) (?W c s)"
      by (subst readLoop.simps) auto
    have g: "\<forall>q \<in> set (closing env s). \<exists>p. currentPoly s = Some p \<and> globalShift q = globalShift p"
      using closing_globalShift by blast
    have t: "tl (closing env s) = []" using closing_cases [of env s] by auto
    have f1: "children (readLoop env s) = container s @ closing env s"
      unfolding a by (simp add: finish_fields)
    have f2: "readLoop (unshifted env) (?W c s) =
             \<lparr>status = status (readLoop env s),
              children = c @ map (without_shift sh) (closing env s),
              messages = filter is_corruption (messages (readLoop env s)),
              aborted = aborted (readLoop env s)\<rparr>"
      unfolding a b finish_without_shift by (simp add: finish_fields)
    have f3: "\<forall>q \<in> set (closing env s). globalShift q = sh \<or> globalShift q = (0, 0, 0)"
      using g k by metis
    have f4: "\<forall>q \<in> set (tl (closing env s)). globalShift q = (0, 0, 0)"
      unfolding t by simp
    have f5: "(\<forall>p. currentPoly s = Some p \<longrightarrow> globalShift p = (0, 0, 0)) \<longrightarrow>
              (\<forall>q \<in> set (closing env s). globalShift q = (0, 0, 0))"
      using g by metis
    from f1 f2 f3 f4 f5 show ?thesis by blast
  next
    case True
    let ?r = "readLine s"
    have nfr: "\<not> firstVertex ?r" and shr: "Pshift ?r = sh" using nf sh by simp_all
    have w: "readLine (?W c s) = ?W c ?r" by (rule readLine_without_shift)
    from True have cond0: "currentLine (?W c s) \<noteq> [] \<and>
        \<not> file_error (unshifted env) (streamPos (?W c s))" by simp
    note p0 = processLine_without_shift [OF nfr shr ex, of c]
    show ?thesis
    proof (cases "processLine env ?r")
      case (Return r)
      from processLine_Return [OF Return]
      have r: "children r = container s" by auto
      from True Return have a: "readLoop env s = r" by (subst readLoop.simps) simp
      from cond0 p0 Return
      have b: "readLoop (unshifted env) (?W c s) =
                 r\<lparr>children := c, messages := filter is_corruption (messages r)\<rparr>"
        by (subst readLoop.simps) (simp add: w)
      have "children (readLoop env s) = container s @ []" unfolding a by (simp add: r)
      moreover have "readLoop (unshifted env) (?W c s) =
             \<lparr>status = status (readLoop env s),
              children = c @ map (without_shift sh) [],
              messages = filter is_corruption (messages (readLoop env s)),
              aborted = aborted (readLoop env s)\<rparr>"
        unfolding a b by simp
      ultimately show ?thesis by (intro exI [where x = "[]"]) simp
    next
      case (Continue t)
      let ?d = "drop (length (container s)) (container t)"
      from True Continue have a: "readLoop env s = readLoop env t"
        by (subst readLoop.simps) simp
      from cond0 p0 Continue
      have b: "readLoop (unshifted env) (?W c s) =
                 readLoop (unshifted env) (?W (c @ map (without_shift sh) ?d) t)"
        by (subst readLoop.simps) (simp add: w)
      from firstVertex_stays_off [OF Continue nfr] shr
      have nft: "\<not> firstVertex t" and sht: "Pshift t = sh" by simp_all
      from processLine_globalShift [OF Continue nfr] obtain d
        where ct: "container t = container s @ d" and d: "d = [] \<or> d = closing env ?r"
          and cur: "\<forall>p'. currentPoly t = Some p' \<longrightarrow>
              globalShift p' = (0, 0, 0) \<or>
              (d = [] \<and> (\<exists>p. currentPoly ?r = Some p \<and> globalShift p' = globalShift p))"
        by auto
      from ct have dd: "?d = d" by simp
      have kt: "\<forall>p. currentPoly t = Some p \<longrightarrow> globalShift p = sh \<or> globalShift p = (0, 0, 0)"
      proof (intro allI impI)
        fix p assume "currentPoly t = Some p"
        with cur have "globalShift p = (0, 0, 0) \<or>
            (\<exists>p0. currentPoly ?r = Some p0 \<and> globalShift p = globalShift p0)" by blast
        with k show "globalShift p = sh \<or> globalShift p = (0, 0, 0)" by auto
      qed
      from "1.IH" [OF True Continue nft sht kt ex, of "c @ map (without_shift sh) ?d"]
      obtain new where n1: "children (readLoop env t) = container t @ new"
        and n2: "readLoop (unshifted env) (?W (c @ map (without_shift sh) ?d) t) =
             \<lparr>status = status (readLoop env t),
              children = (c @ map (without_shift sh) ?d) @ map (without_shift sh) new,
              messages = filter is_corruption (messages (readLoop env t)),
              aborted = aborted (readLoop env t)\<rparr>"
        and n3: "\<forall>q \<in> set new. globalShift q = sh \<or> globalShift q = (0, 0, 0)"
        and n4: "\<forall>q \<in> set (tl new). globalShift q = (0, 0, 0)"
        and n5: "(\<forall>p. currentPoly t = Some p \<longrightarrow> globalShift p = (0, 0, 0)) \<longrightarrow>
              (\<forall>q \<in> set new. globalShift q = (0, 0, 0))"
        by blast
      have dg: "\<forall>q \<in> set d. \<exists>p. currentPoly s = Some p \<and> globalShift q = globalShift p"
        using d closing_globalShift [of _ env ?r] by auto
      have dlen: "d = [] \<or> (\<exists>q. d = [q])" using d closing_cases [of env ?r] by auto
      have zero_after: "\<forall>q \<in> set new. globalShift q = (0, 0, 0)" if "d \<noteq> []"
      proof -
        from that cur have "\<forall>p. currentPoly t = Some p \<longrightarrow> globalShift p = (0, 0, 0)" by blast
        with n5 show ?thesis by blast
      qed
      have c1: "children (readLoop env s) = container s @ (d @ new)"
        unfolding a n1 ct by simp
      have c2: "readLoop (unshifted env) (?W c s) =
             \<lparr>status = status (readLoop env s),
              children = c @ map (without_shift sh) (d @ new),
              messages = filter is_corruption (messages (readLoop env s)),
              aborted = aborted (readLoop env s)\<rparr>"
        using n2 unfolding b a dd by simp
      have d3: "\<forall>q \<in> set d. globalShift q = sh \<or> globalShift q = (0, 0, 0)"
        using dg k by metis
      have c3: "\<forall>q \<in> set (d @ new). globalShift q = sh \<or> globalShift q = (0, 0, 0)"
        using d3 n3 by auto
      have c4: "\<forall>q \<in> set (tl (d @ new)). globalShift q = (0, 0, 0)"
      proof (cases "d = []")
        case True
        with n4 show ?thesis by simp
      next
        case False
        with dlen obtain q0 where "d = [q0]" by blast
        with zero_after [OF False] show ?thesis by simp
      qed
      have c5: "(\<forall>p. currentPoly s = Some p \<longrightarrow> globalShift p = (0, 0, 0)) \<longrightarrow>
              (\<forall>q \<in> set (d @ new). globalShift q = (0, 0, 0))"
      proof (intro impI ballI)
        fix q assume z: "\<forall>p. currentPoly s = Some p \<longrightarrow> globalShift p = (0, 0, 0)"
          and q: "q \<in> set (d @ new)"
        have "\<forall>p. currentPoly t = Some p \<longrightarrow> globalShift p = (0, 0, 0)"
        proof (intro allI impI)
          fix p assume "currentPoly t = Some p"
          with cur have "globalShift p = (0, 0, 0) \<or>
            (\<exists>p0. currentPoly ?r = Some p0 \<and> globalShift p = globalShift p0)" by blast
          with z show "globalShift p = (0, 0, 0)" by auto
        qed
        with n5 have "\<forall>q \<in> set new. globalShift q = (0, 0, 0)" by blast
        moreover from dg z have "\<forall>q \<in> set d. globalShift q = (0, 0, 0)" by metis
        ultimately show "globalShift q = (0, 0, 0)" using q by auto
      qed
      from c1 c2 c3 c4 c5 show ?thesis by blast
    qed
  qed
qed

text \<open>Before the first vertex, undoing a shift changes nothing.\<close>

lemma without_shift_empty:
  "points (vertices p) = [] \<Longrightarrow> globalShift p = (0, 0, 0) \<Longrightarrow> without_shift sh p = p"
  by (simp add: without_shift_def)

lemma without_shift_state_before:
  assumes "before_first_vertex s"
  shows "without_shift_state sh (container s) s = s"
proof -
  from assms have "filter is_corruption (warnings s) = warnings s"
    by (simp add: before_first_vertex_def list_all_iff)
  moreover from assms have "map_option (without_shift sh) (currentPoly s) = currentPoly s"
    by (cases "currentPoly s") (simp_all add: before_first_vertex_def without_shift_empty)
  moreover from assms have "Pshift s = (0, 0, 0)" by (simp add: before_first_vertex_def)
  ultimately show ?thesis by (simp add: without_shift_state_def)
qed

lemma before_closing: "before_first_vertex s \<Longrightarrow> closing env s = []"
  by (auto simp: before_first_vertex_def closing_def finalized_empty split: option.splits)

lemma before_lineNumber:
  "before_first_vertex (s\<lparr>lineNumber := n\<rparr>) = before_first_vertex s"
  by (simp add: before_first_vertex_def)

lemma before_readLine: "before_first_vertex (readLine s) = before_first_vertex s"
  by (simp add: before_first_vertex_def)

lemma before_malformed:
  "before_first_vertex s \<Longrightarrow> is_corruption d \<Longrightarrow> before_first_vertex (malformed s d)"
  by (simp add: before_first_vertex_def malformed_def warn_def)

lemma before_onBlockHeader:
  "before_first_vertex s \<Longrightarrow> before_first_vertex (onBlockHeader env s)"
  by (auto simp: onBlockHeader_def closeBlock_def Let_def before_first_vertex_def
                 malformed_def warn_def new_block_polyline_def split: option.splits)

lemma before_cpCase0:
  "before_first_vertex s \<Longrightarrow> currentPoly s = Some p \<Longrightarrow> before_first_vertex (cpCase0 env s p ts)"
  by (auto simp: cpCase0_def Let_def before_first_vertex_def malformed_def warn_def
           split: option.splits)

lemma before_cpCase2:
  "before_first_vertex s \<Longrightarrow> currentPoly s = Some p \<Longrightarrow> before_first_vertex (cpCase2 env s p ts)"
  by (auto simp: cpCase2_def Let_def before_first_vertex_def malformed_def warn_def
           split: option.splits)

lemma before_cpCase1:
  assumes "before_first_vertex s" and "currentPoly s = Some p"
    and "cpCase1 env s p ts = Continue t"
  shows "before_first_vertex t"
proof (cases "curveType s")
  case CUREV_S
  have "before_first_vertex (s\<lparr>cpIndex := cpIndex s + 1\<rparr>)"
    using assms(1) by (simp add: before_first_vertex_def)
  from before_cpCase2 [OF this, of p env ts] assms(2,3) CUREV_S show ?thesis
    by (auto simp: cpCase1_def)
next
  case CURVE_C
  then show ?thesis using assms
    by (auto simp: cpCase1_def assert_failed_def Let_def case_prod_beta before_first_vertex_def
             split: if_splits)
qed (use assms in \<open>auto simp: cpCase1_def assert_failed_def before_first_vertex_def
                         malformed_def warn_def
                        split: option.splits if_splits\<close>)

lemma before_onCP:
  "before_first_vertex s \<Longrightarrow> currentPoly s = Some p \<Longrightarrow> onCP env s p = Continue t \<Longrightarrow>
   before_first_vertex t"
  using before_cpCase1 [of s p env _ t]
  by (auto simp: onCP_def Let_def before_cpCase0 before_cpCase2 split: if_splits)

text \<open>A step made before the first vertex either stays there or is the step of the first
  vertex.\<close>

lemma before_onVertex:
  assumes "before_first_vertex s" and "onVertex env s p = Continue t"
  shows "before_first_vertex t \<or> \<not> firstVertex t"
  using assms before_malformed [of s "CorruptedVertex (lineNumber s)"]
  by (auto simp: onVertex_def firstVertexShift_def Let_def warn_def before_first_vertex_def
           split: option.splits if_splits prod.splits)

lemma before_processLine:
  assumes "before_first_vertex s" and "processLine env s = Continue t"
  shows "before_first_vertex t \<or> \<not> firstVertex t"
proof -
  let ?s = "s\<lparr>lineNumber := lineNumber s + 1\<rparr>"
  have b: "before_first_vertex ?s" using assms(1) by (simp add: before_lineNumber)
  have n: "before_first_vertex (?s\<lparr>currentPoly := Some (p\<lparr>name := x\<rparr>)\<rparr>)"
    if "currentPoly s = Some p" for p x
    using b that by (simp add: before_first_vertex_def)
  from assms(2) show ?thesis
    using b n before_onBlockHeader [OF b, of env] before_onCP [OF b, of _ env t]
      before_onVertex [OF b, of env _ t]
    by (auto simp: processLine_def Let_def split: if_splits option.splits)
qed

lemma onVertex_before:
  assumes "before_first_vertex s" and "currentPoly s = Some p"
    and ex: "fromDouble env = (\<lambda>x. x)"
  shows "(\<exists>r. onVertex env s p = Return r \<and> onVertex (unshifted env) s p = Return r) \<or>
         (\<exists>t. onVertex env s p = Continue t \<and> before_first_vertex t \<and>
              onVertex (unshifted env) s p = Continue t) \<or>
         (\<exists>t. onVertex env s p = Continue t \<and> \<not> firstVertex t \<and>
              onVertex (unshifted env) s p =
                Continue (without_shift_state (Pshift t) (container s) t) \<and>
              (\<forall>q. currentPoly t = Some q \<longrightarrow>
                 globalShift q = Pshift t \<or> globalShift q = (0, 0, 0)))"
proof -
  let ?ts = "split (isSpace env) (currentLine s)"
  let ?bad = "malformed s (CorruptedVertex (lineNumber s))"
  have bad: "before_first_vertex ?bad" using assms(1) by (simp add: before_malformed)
  from assms have pts: "points (vertices p) = []" and g0: "globalShift p = (0, 0, 0)"
    and fv: "firstVertex s" and ps: "Pshift s = (0, 0, 0)"
    and fw: "filter is_corruption (warnings s) = warnings s"
    by (simp_all add: before_first_vertex_def list_all_iff)
  have fa: "fromArray env P = P" "fromArray (unshifted env) P = P" for P
    using ex by (simp_all add: fromArray_exact)
  let ?rv = "if length (points (vertices p)) = capacity (vertices p)
          then reserve env (streamPos s) (capacity (vertices p)) (length (points (vertices p)) + 10)
          else Some (capacity (vertices p))"
  show ?thesis
  proof (cases "length ?ts = 4 \<and> toDouble env (?ts ! 0) \<noteq> None \<and>
                toDouble env (?ts ! 1) \<noteq> None \<and> toDouble env (?ts ! 2) \<noteq> None")
    case False
    then have "onVertex env s p = Continue ?bad"
      by (auto simp: onVertex_def Let_def split: option.splits)
    moreover from False have "onVertex (unshifted env) s p = Continue ?bad"
      by (auto simp: onVertex_def Let_def split: option.splits)
    ultimately show ?thesis using bad by blast
  next
    case True
    then obtain x y z where ok: "length ?ts = 4" "toDouble env (?ts ! 0) = Some x"
        "toDouble env (?ts ! 1) = Some y" "toDouble env (?ts ! 2) = Some z"
      by auto
    show ?thesis
    proof (cases ?rv)
      case None
      then have "onVertex env s p =
          Return \<lparr>status = CC_FERR_NOT_ENOUGH_MEMORY, children = container s,
                  messages = warnings s, aborted = False\<rparr>"
        using ok by (auto simp: onVertex_def Let_def split: if_splits)
      moreover from None have "onVertex (unshifted env) s p =
          Return \<lparr>status = CC_FERR_NOT_ENOUGH_MEMORY, children = container s,
                  messages = warnings s, aborted = False\<rparr>"
        using ok by (auto simp: onVertex_def Let_def split: if_splits)
      ultimately show ?thesis by blast
    next
      case (Some cap)
      obtain applied sh where h: "HandleGlobalShift env (x, y, z) (0, 0, 0) = (applied, sh)"
        by (cases "HandleGlobalShift env (x, y, z) (0, 0, 0)") auto
      let ?p1 = "p\<lparr>vertices := (vertices p)\<lparr>capacity := cap\<rparr>\<rparr>"
      let ?p2 = "if applied then ?p1\<lparr>globalShift := sh\<rparr> else ?p1"
      let ?p3 = "?p2\<lparr>vertices := (vertices ?p2)\<lparr>points := [vadd (x, y, z) sh]\<rparr>\<rparr>"
      let ?s1 = "s\<lparr>firstVertex := False, Pshift := sh\<rparr>"
      let ?t = "(if applied then warn ?s1 (Recentered sh) else ?s1)\<lparr>currentPoly := Some ?p3\<rparr>"
      let ?q = "?p1\<lparr>vertices := (vertices ?p1)\<lparr>points := [(x, y, z)]\<rparr>\<rparr>"
      let ?u = "s\<lparr>firstVertex := False, currentPoly := Some ?q\<rparr>"
      have a: "onVertex env s p = Continue ?t"
        using ok Some h fv ps pts
        by (auto simp: onVertex_def firstVertexShift_def Let_def warn_def fa split: if_splits)
      have b: "onVertex (unshifted env) s p = Continue ?u"
        using ok Some fv ps pts
        by (auto simp: onVertex_def firstVertexShift_def Let_def fa split: if_splits)
      have c: "without_shift_state (Pshift ?t) (container s) ?t = ?u"
        using g0 fw ps by (simp add: without_shift_state_def without_shift_def warn_def)
      have d: "\<not> firstVertex ?t" by (simp add: warn_def)
      have e: "\<forall>q. currentPoly ?t = Some q \<longrightarrow> globalShift q = Pshift ?t \<or> globalShift q = (0, 0, 0)"
        using g0 by (simp add: warn_def)
      from a b c d e show ?thesis by metis
    qed
  qed
qed

text \<open>Only the handling of the first vertex looks at the shift policy.\<close>

lemma finalized_unshifted: "finalized (unshifted env) pos p = finalized env pos p"
  by (simp add: finalized_def Let_def split: option.splits)

lemma closeBlock_unshifted: "closeBlock (unshifted env) s = closeBlock env s"
  by (simp add: closeBlock_def finalized_unshifted split: option.splits)

lemma onBlockHeader_unshifted: "onBlockHeader (unshifted env) s = onBlockHeader env s"
  by (simp add: onBlockHeader_def closeBlock_unshifted Let_def)

lemma cpCase0_unshifted: "cpCase0 (unshifted env) s p ts = cpCase0 env s p ts"
  by (simp add: cpCase0_def Let_def split: option.splits)

lemma cpCase2_unshifted: "cpCase2 (unshifted env) s p ts = cpCase2 env s p ts"
  by (simp add: cpCase2_def Let_def split: option.splits)

lemma skipValues_unshifted: "skipValues (unshifted env) s k = skipValues env s k"
proof (induction env s k rule: skipValues.induct)
  case (1 env s k)
  show ?case
  proof (cases "k < 16 \<and> currentLine s \<noteq> [] \<and> \<not> file_error env (streamPos s)")
    case False
    then have "skipValues env s k = (s, k)" by (subst skipValues.simps) auto
    moreover from False have "skipValues (unshifted env) s k = (s, k)"
      by (subst skipValues.simps) auto
    ultimately show ?thesis by simp
  next
    case True
    let ?s2 = "(readLine s)\<lparr>lineNumber := lineNumber (readLine s) + 1\<rparr>"
    let ?k2 = "k + int (length (split (isSpace env) (currentLine ?s2)))"
    have "skipValues env s k = skipValues env ?s2 ?k2"
      using True by (subst skipValues.simps) (simp add: Let_def)
    moreover have "skipValues (unshifted env) s k = skipValues (unshifted env) ?s2 ?k2"
      using True by (subst skipValues.simps) (simp add: Let_def)
    ultimately show ?thesis using "1.IH" [OF True refl refl refl] by simp
  qed
qed

lemma cpCase1_unshifted: "cpCase1 (unshifted env) s p ts = cpCase1 env s p ts"
  by (simp add: cpCase1_def cpCase2_unshifted skipValues_unshifted Let_def
           split: option.splits CurveType.splits)

lemma onCP_unshifted: "onCP (unshifted env) s p = onCP env s p"
  by (simp add: onCP_def cpCase0_unshifted cpCase1_unshifted cpCase2_unshifted Let_def)

lemma processLine_before:
  assumes "before_first_vertex s" and ex: "fromDouble env = (\<lambda>x. x)"
  shows "(\<exists>r. processLine env s = Return r \<and> processLine (unshifted env) s = Return r) \<or>
         (\<exists>t. processLine env s = Continue t \<and> before_first_vertex t \<and>
              processLine (unshifted env) s = Continue t) \<or>
         (\<exists>t. processLine env s = Continue t \<and> \<not> firstVertex t \<and>
              processLine (unshifted env) s =
                Continue (without_shift_state (Pshift t) (container s) t) \<and>
              (\<forall>q. currentPoly t = Some q \<longrightarrow>
                 globalShift q = Pshift t \<or> globalShift q = (0, 0, 0)))"
proof -
  let ?s = "s\<lparr>lineNumber := lineNumber s + 1\<rparr>"
  have b: "before_first_vertex ?s" using assms by (simp add: before_lineNumber)
  let ?vertex = "\<not> startsWith (currentLine s) ''C '' \<and> \<not> startsWith (currentLine s) ''B'' \<and>
                 currentPoly s \<noteq> None \<and> \<not> startsWith (currentLine s) ''CN'' \<and>
                 \<not> startsWith (currentLine s) ''CP'' \<and> currentLine s \<noteq> []"
  show ?thesis
  proof (cases ?vertex)
    case True
    then obtain p where p: "currentPoly s = Some p" by auto
    with True have "processLine env s = onVertex env ?s p"
      and "processLine (unshifted env) s = onVertex (unshifted env) ?s p"
      by (simp_all add: processLine_def Let_def)
    with onVertex_before [OF b _ ex, of p] p show ?thesis by simp
  next
    case False
    then have same: "processLine (unshifted env) s = processLine env s"
      by (auto simp: processLine_def Let_def onBlockHeader_unshifted onCP_unshifted
               split: option.splits)
    show ?thesis
    proof (cases "processLine env s")
      case (Return r)
      with same show ?thesis by simp
    next
      case (Continue t)
      let ?sv = "s\<lparr>lineNumber := lineNumber s + 1\<rparr>"
      have n: "before_first_vertex (?sv\<lparr>currentPoly := Some (p\<lparr>name := x\<rparr>)\<rparr>)"
        if "currentPoly s = Some p" for p x
        using b that by (simp add: before_first_vertex_def)
      from Continue False have "before_first_vertex t"
        using b n before_onBlockHeader [OF b, of env] before_onCP [OF b, of _ env t]
        by (auto simp: processLine_def Let_def split: if_splits option.splits)
      with Continue same show ?thesis by simp
    qed
  qed
qed

lemma before_container:
  assumes "before_first_vertex s" and "processLine env s = Continue t"
  shows "container t = container s"
  using processLine_container [OF assms(2)] before_closing [OF assms(1), of env] by auto

lemma readLoop_before:
  assumes "before_first_vertex s" and "fromDouble env = (\<lambda>x. x)"
  shows "\<exists>sh new. children (readLoop env s) = container s @ new \<and>
           readLoop (unshifted env) s =
             \<lparr>status = status (readLoop env s),
              children = container s @ map (without_shift sh) new,
              messages = filter is_corruption (messages (readLoop env s)),
              aborted = aborted (readLoop env s)\<rparr> \<and>
           (\<forall>q \<in> set new. globalShift q = sh \<or> globalShift q = (0, 0, 0)) \<and>
           (\<forall>q \<in> set (tl new). globalShift q = (0, 0, 0))"
  using assms
proof (induction env s rule: readLoop.induct)
  case (1 env s)
  note b = "1.prems"(1) and ex = "1.prems"(2)
  from b have fw: "filter is_corruption (warnings s) = warnings s"
    by (simp add: before_first_vertex_def list_all_iff)
  show ?case
  proof (cases "currentLine s \<noteq> [] \<and> \<not> file_error env (streamPos s)")
    case False
    then have a: "readLoop env s = finish env s" by (subst readLoop.simps) auto
    from False have "readLoop (unshifted env) s = finish (unshifted env) s"
      by (subst readLoop.simps) auto
    also have "\<dots> = finish (unshifted env) (without_shift_state (0, 0, 0) (container s) s)"
      by (simp add: without_shift_state_before [OF b])
    also have "\<dots> = \<lparr>status = result s, children = container s,
                      messages = filter is_corruption (warnings s), aborted = False\<rparr>"
      by (simp add: finish_without_shift before_closing [OF b])
    finally have u: "readLoop (unshifted env) s =
        \<lparr>status = result s, children = container s,
         messages = filter is_corruption (warnings s), aborted = False\<rparr>" .
    have "children (readLoop env s) = container s @ []"
      unfolding a by (simp add: finish_fields before_closing [OF b])
    moreover have "readLoop (unshifted env) s =
             \<lparr>status = status (readLoop env s),
              children = container s @ map (without_shift (0, 0, 0)) [],
              messages = filter is_corruption (messages (readLoop env s)),
              aborted = aborted (readLoop env s)\<rparr>"
      unfolding u a by (simp add: finish_fields)
    ultimately show ?thesis
      by (intro exI [where x = "(0, 0, 0)"] exI [where x = "[]"]) simp
  next
    case True
    let ?r = "readLine s"
    have br: "before_first_vertex ?r" using b by (simp add: before_readLine)
    from True have cond0: "currentLine s \<noteq> [] \<and> \<not> file_error (unshifted env) (streamPos s)"
      by simp
    from processLine_before [OF br ex] show ?thesis
    proof (elim disjE exE conjE)
      fix r assume p: "processLine env ?r = Return r"
        and p0: "processLine (unshifted env) ?r = Return r"
      from processLine_Return [OF p]
      have r: "children r = container s" "messages r = warnings s" by auto
      from True p have a: "readLoop env s = r" by (subst readLoop.simps) simp
      from cond0 p0 have u: "readLoop (unshifted env) s = r" by (subst readLoop.simps) simp
      have "children (readLoop env s) = container s @ []" unfolding a by (simp add: r)
      moreover have "readLoop (unshifted env) s =
             \<lparr>status = status (readLoop env s),
              children = container s @ map (without_shift (0, 0, 0)) [],
              messages = filter is_corruption (messages (readLoop env s)),
              aborted = aborted (readLoop env s)\<rparr>"
        unfolding u a using r fw by (cases r) simp
      ultimately show ?thesis
        by (intro exI [where x = "(0, 0, 0)"] exI [where x = "[]"]) simp
    next
      fix t assume p: "processLine env ?r = Continue t" and bt: "before_first_vertex t"
        and p0: "processLine (unshifted env) ?r = Continue t"
      from before_container [OF br p] have ct: "container t = container s" by simp
      from True p have a: "readLoop env s = readLoop env t" by (subst readLoop.simps) simp
      from cond0 p0 have u: "readLoop (unshifted env) s = readLoop (unshifted env) t"
        by (subst readLoop.simps) simp
      from "1.IH" [OF True p bt ex] show ?thesis unfolding a u ct .
    next
      fix t assume p: "processLine env ?r = Continue t" and nf: "\<not> firstVertex t"
        and p0: "processLine (unshifted env) ?r =
                   Continue (without_shift_state (Pshift t) (container ?r) t)"
        and k: "\<forall>q. currentPoly t = Some q \<longrightarrow>
                  globalShift q = Pshift t \<or> globalShift q = (0, 0, 0)"
      from before_container [OF br p] have ct: "container t = container s" by simp
      from True p have a: "readLoop env s = readLoop env t" by (subst readLoop.simps) simp
      from cond0 p0 have u: "readLoop (unshifted env) s =
          readLoop (unshifted env) (without_shift_state (Pshift t) (container s) t)"
        by (subst readLoop.simps) simp
      from readLoop_without_shift [OF nf refl k ex, of "container s"]
      obtain new where "children (readLoop env t) = container t @ new"
        and "readLoop (unshifted env) (without_shift_state (Pshift t) (container s) t) =
             \<lparr>status = status (readLoop env t),
              children = container s @ map (without_shift (Pshift t)) new,
              messages = filter is_corruption (messages (readLoop env t)),
              aborted = aborted (readLoop env t)\<rparr>"
        and "\<forall>q \<in> set new. globalShift q = Pshift t \<or> globalShift q = (0, 0, 0)"
        and "\<forall>q \<in> set (tl new). globalShift q = (0, 0, 0)"
        by blast
      then show ?thesis unfolding a u ct by blast
    qed
  qed
qed

text \<open>A load is the load of the platform that stores coordinates as they are, with every
  stored vertex converted to \<^verbatim>\<open>PointCoordinateType\<close>: the conversion is the last thing done
  to a vertex, and nothing the reader does later looks at the coordinates it has stored.\<close>

lemma narrowed_fields [simp]:
  "name (narrowed env p) = name p"
  "indexes (narrowed env p) = indexes p"
  "isClosed (narrowed env p) = isClosed p"
  "isVisible (narrowed env p) = isVisible p"
  "is2DMode (narrowed env p) = is2DMode p"
  "globalShift (narrowed env p) = globalShift p"
  "metaUpDir (narrowed env p) = metaUpDir p"
  "metaConstAltitude (narrowed env p) = metaConstAltitude p"
  "capacity (vertices (narrowed env p)) = capacity (vertices p)"
  "isEnabled (vertices (narrowed env p)) = isEnabled (vertices p)"
  "points (vertices (narrowed env p)) = map (fromArray env) (points (vertices p))"
  by (simp_all add: narrowed_def)

lemma narrowed_state_fields [simp]:
  "stream (narrowed_state env c s) = stream s"
  "streamPos (narrowed_state env c s) = streamPos s"
  "currentLine (narrowed_state env c s) = currentLine s"
  "lineNumber (narrowed_state env c s) = lineNumber s"
  "curveType (narrowed_state env c s) = curveType s"
  "cpIndex (narrowed_state env c s) = cpIndex s"
  "result (narrowed_state env c s) = result s"
  "firstVertex (narrowed_state env c s) = firstVertex s"
  "Pshift (narrowed_state env c s) = Pshift s"
  "container (narrowed_state env c s) = c"
  "currentPoly (narrowed_state env c s) = map_option (narrowed env) (currentPoly s)"
  "warnings (narrowed_state env c s) = warnings s"
  by (simp_all add: narrowed_state_def)

lemma malformed_narrowed:
  "malformed (narrowed_state env c s) d = narrowed_state env c (malformed s d)"
  by (simp add: malformed_def warn_def narrowed_state_def)

lemma finalized_narrowed:
  "finalized env pos (narrowed env p) = map_option (narrowed env) (finalized (exact env) pos p)"
  by (simp add: finalized_def Let_def narrowed_def split: option.splits)

lemma closing_narrowed:
  "closing env (narrowed_state env c s) = map (narrowed env) (closing (exact env) s)"
  by (simp add: closing_def finalized_narrowed split: option.splits)

lemma closeBlock_narrowed:
  "closeBlock env (narrowed_state env c s) =
     narrowed_state env (c @ map (narrowed env) (closing (exact env) s))
       (closeBlock (exact env) s)"
  by (simp add: closeBlock_def closing_def finalized_narrowed narrowed_state_def
           split: option.splits)

lemma new_block_narrowed: "narrowed env new_block_polyline = new_block_polyline"
  by (simp add: narrowed_def new_block_polyline_def)

lemma onBlockHeader_narrowed:
  "onBlockHeader env (narrowed_state env c s) =
     narrowed_state env (c @ map (narrowed env) (closing (exact env) s))
       (onBlockHeader (exact env) s)"
  by (simp add: onBlockHeader_def closeBlock_narrowed Let_def)
     (simp add: narrowed_state_def malformed_def warn_def new_block_narrowed)

lemma cpCase0_narrowed:
  "cpCase0 env (narrowed_state env c s) (narrowed env p) ts =
     narrowed_state env c (cpCase0 (exact env) s p ts)"
  by (simp add: cpCase0_def Let_def malformed_narrowed split: option.splits)

lemma cpCase2_narrowed:
  "cpCase2 env (narrowed_state env c s) (narrowed env p) ts =
     narrowed_state env c (cpCase2 (exact env) s p ts)"
  by (simp add: cpCase2_def Let_def malformed_narrowed split: option.splits)

lemma narrowed_state_update:
  "(narrowed_state env c s)\<lparr>lineNumber := n\<rparr> = narrowed_state env c (s\<lparr>lineNumber := n\<rparr>)"
  "(narrowed_state env c s)\<lparr>cpIndex := i\<rparr> = narrowed_state env c (s\<lparr>cpIndex := i\<rparr>)"
  by (simp_all add: narrowed_state_def)

lemma readLine_narrowed:
  "readLine (narrowed_state env c s) = narrowed_state env c (readLine s)"
  by (simp add: readLine_def narrowed_state_def split: list.splits)

lemma skipValues_narrowed:
  assumes "isSpace e = isSpace env" and "file_error e = file_error env"
  shows "skipValues env (narrowed_state env c s) k =
           (narrowed_state env c (fst (skipValues e s k)), snd (skipValues e s k))"
  using assms
proof (induction e s k rule: skipValues.induct)
  case (1 e s k)
  note same = "1.prems"
  show ?case
  proof (cases "k < 16 \<and> currentLine s \<noteq> [] \<and> \<not> file_error e (streamPos s)")
    case False
    then have "skipValues e s k = (s, k)" by (subst skipValues.simps) auto
    moreover from False same
    have "skipValues env (narrowed_state env c s) k = (narrowed_state env c s, k)"
      by (subst skipValues.simps) auto
    ultimately show ?thesis by simp
  next
    case True
    let ?s2 = "(readLine s)\<lparr>lineNumber := lineNumber (readLine s) + 1\<rparr>"
    let ?k2 = "k + int (length (split (isSpace e) (currentLine ?s2)))"
    have a: "skipValues e s k = skipValues e ?s2 ?k2"
      using True by (subst skipValues.simps) (simp add: Let_def)
    have "skipValues env (narrowed_state env c s) k =
            skipValues env (narrowed_state env c ?s2) ?k2"
      using True same
      by (subst skipValues.simps) (simp add: Let_def readLine_narrowed narrowed_state_update)
    with "1.IH" [OF True refl refl refl same] a show ?thesis by simp
  qed
qed

lemma assert_failed_narrowed:
  "assert_failed (narrowed_state env c s) = narrowed_step env c (assert_failed s)"
  by (simp add: assert_failed_def)

lemma cpCase1_narrowed:
  "cpCase1 env (narrowed_state env c s) (narrowed env p) ts =
     narrowed_step env c (cpCase1 (exact env) s p ts)"
proof -
  have sk: "skipValues env (narrowed_state env c s) k =
           (narrowed_state env c (fst (skipValues (exact env) s k)),
            snd (skipValues (exact env) s k))" for k
    by (rule skipValues_narrowed) simp_all
  have nm: "(narrowed_state env c s)\<lparr>currentPoly := Some ((narrowed env p)\<lparr>metaConstAltitude := z\<rparr>),
              cpIndex := i\<rparr> =
            narrowed_state env c (s\<lparr>currentPoly := Some (p\<lparr>metaConstAltitude := z\<rparr>), cpIndex := i\<rparr>)"
    for z i
    by (simp add: narrowed_state_def narrowed_def)
  show ?thesis
    using cpCase2_narrowed [where s = "s\<lparr>cpIndex := cpIndex s + 1\<rparr>" and env = env
        and c = c and p = p and ts = ts]
    by (cases "curveType s")
       (simp_all add: cpCase1_def Let_def case_prod_beta malformed_narrowed sk nm
                      assert_failed_narrowed narrowed_state_update split: option.splits)
qed

lemma onCP_narrowed:
  "onCP env (narrowed_state env c s) (narrowed env p) =
     narrowed_step env c (onCP (exact env) s p)"
  by (simp add: onCP_def Let_def cpCase0_narrowed cpCase1_narrowed cpCase2_narrowed)

lemma onVertex_narrowed:
  "onVertex env (narrowed_state env c s) (narrowed env p) =
     narrowed_step env c (onVertex (exact env) s p)"
  by (simp add: onVertex_def firstVertexShift_def Let_def malformed_narrowed fromArray_exact
                warn_def case_prod_beta
           split: option.splits)

lemma processLine_narrowed:
  "processLine env (narrowed_state env c s) =
     (case processLine (exact env) s of
        Return r \<Rightarrow> Return (r\<lparr>children := c\<rparr>)
      | Continue t \<Rightarrow>
          Continue (narrowed_state env
            (c @ map (narrowed env) (drop (length (container s)) (container t))) t))"
proof -
  let ?e = "exact env"
  let ?s = "s\<lparr>lineNumber := lineNumber s + 1\<rparr>"
  have cl: "closing ?e ?s = closing ?e s" by (simp add: closing_def cong: option.case_cong)
  have v: "onVertex ?e ?s p = Continue t \<Longrightarrow> container t = container s" for p t
    using onVertex_container [of ?e ?s p t] by simp
  have cp: "onCP ?e ?s p = Continue t \<Longrightarrow> container t = container s" for p t
    using onCP_container [of ?e ?s p t] by simp
  have step: "narrowed_step env c x =
      (case x of
         Return r \<Rightarrow> Return (r\<lparr>children := c\<rparr>)
       | Continue t \<Rightarrow>
           Continue (narrowed_state env
             (c @ map (narrowed env) (drop (length (container s)) (container t))) t))"
    if "\<And>t. x = Continue t \<Longrightarrow> container t = container s" for x
    using that by (cases x) simp_all
  show ?thesis
  proof (cases "startsWith (currentLine s) ''C ''")
    case True
    then show ?thesis by (simp add: processLine_def Let_def narrowed_state_def)
  next
    case c: False
    show ?thesis
    proof (cases "startsWith (currentLine s) ''B''")
      case True
      with c show ?thesis
        by (simp add: processLine_def Let_def narrowed_state_update
                      onBlockHeader_narrowed onBlockHeader_container cl)
    next
      case b: False
      show ?thesis
      proof (cases "currentPoly s")
        case None
        with c b show ?thesis by (simp add: processLine_def Let_def narrowed_state_def)
      next
        case (Some p)
        show ?thesis
        proof (cases "startsWith (currentLine s) ''CN''")
          case True
          with c b Some show ?thesis
            by (simp add: processLine_def Let_def narrowed_state_def narrowed_def)
        next
          case n: False
          show ?thesis
          proof (cases "startsWith (currentLine s) ''CP''")
            case True
            from cp have "narrowed_step env c (onCP ?e ?s p) =
                (case onCP ?e ?s p of
                   Return r \<Rightarrow> Return (r\<lparr>children := c\<rparr>)
                 | Continue t \<Rightarrow>
                     Continue (narrowed_state env
                       (c @ map (narrowed env) (drop (length (container s)) (container t))) t))"
              by (intro step)
            with c b n Some True show ?thesis
              by (simp add: processLine_def Let_def narrowed_state_update onCP_narrowed)
          next
            case False
            from v have "narrowed_step env c (onVertex ?e ?s p) =
                (case onVertex ?e ?s p of
                   Return r \<Rightarrow> Return (r\<lparr>children := c\<rparr>)
                 | Continue t \<Rightarrow>
                     Continue (narrowed_state env
                       (c @ map (narrowed env) (drop (length (container s)) (container t))) t))"
              by (intro step)
            with c b n Some False show ?thesis
              by (simp add: processLine_def Let_def narrowed_state_update onVertex_narrowed)
          qed
        qed
      qed
    qed
  qed
qed

lemma finish_narrowed:
  "finish env (narrowed_state env c s) =
     (finish (exact env) s)\<lparr>children := c @ map (narrowed env) (closing (exact env) s)\<rparr>"
  by (simp add: finish_def closing_def Let_def finalized_narrowed split: option.splits)

lemma readLoop_narrowed:
  assumes "e = exact env"
  shows "\<exists>new. children (readLoop e s) = container s @ new \<and>
           readLoop env (narrowed_state env c s) =
             (readLoop e s)\<lparr>children := c @ map (narrowed env) new\<rparr>"
  using assms
proof (induction e s arbitrary: c rule: readLoop.induct)
  case (1 e s)
  note e = "1.prems"
  let ?N = "narrowed_state env"
  show ?case
  proof (cases "currentLine s \<noteq> [] \<and> \<not> file_error e (streamPos s)")
    case False
    then have a: "readLoop e s = finish e s" by (subst readLoop.simps) auto
    from False e have b: "readLoop env (?N c s) = finish env (?N c s)"
      by (subst readLoop.simps) auto
    have "children (readLoop e s) = container s @ closing e s"
      unfolding a by (simp add: finish_fields)
    moreover have "finish env (?N c s) =
        (finish e s)\<lparr>children := c @ map (narrowed env) (closing e s)\<rparr>"
      unfolding e by (rule finish_narrowed)
    then have "readLoop env (?N c s) =
        (readLoop e s)\<lparr>children := c @ map (narrowed env) (closing e s)\<rparr>"
      by (simp only: a b)
    ultimately show ?thesis by blast
  next
    case True
    let ?r = "readLine s"
    have w: "readLine (?N c s) = ?N c ?r" by (rule readLine_narrowed)
    from True e have cond0: "currentLine (?N c s) \<noteq> [] \<and>
        \<not> file_error env (streamPos (?N c s))" by simp
    note p0 = processLine_narrowed [of env c ?r, folded e]
    show ?thesis
    proof (cases "processLine e ?r")
      case (Return r)
      from processLine_Return [OF Return] have r: "children r = container s" by auto
      from True Return have a: "readLoop e s = r" by (subst readLoop.simps) simp
      from cond0 p0 Return have b: "readLoop env (?N c s) = r\<lparr>children := c\<rparr>"
        by (subst readLoop.simps) (simp add: w)
      have "children (readLoop e s) = container s @ []" unfolding a by (simp add: r)
      moreover have "readLoop env (?N c s) =
          (readLoop e s)\<lparr>children := c @ map (narrowed env) []\<rparr>"
        unfolding a b by simp
      ultimately show ?thesis by blast
    next
      case (Continue t)
      let ?d = "drop (length (container s)) (container t)"
      from True Continue have a: "readLoop e s = readLoop e t" by (subst readLoop.simps) simp
      from cond0 p0 Continue
      have b: "readLoop env (?N c s) = readLoop env (?N (c @ map (narrowed env) ?d) t)"
        by (subst readLoop.simps) (simp add: w)
      from processLine_container [OF Continue] obtain d where ct: "container t = container s @ d"
        by auto
      then have dd: "?d = d" by simp
      from "1.IH" [OF True Continue e, of "c @ map (narrowed env) ?d"]
      obtain new where n1: "children (readLoop e t) = container t @ new"
        and n2: "readLoop env (?N (c @ map (narrowed env) ?d) t) =
                   (readLoop e t)\<lparr>children := (c @ map (narrowed env) ?d) @ map (narrowed env) new\<rparr>"
        by blast
      have "children (readLoop e s) = container s @ (d @ new)" unfolding a n1 ct by simp
      moreover have "readLoop env (?N c s) =
          (readLoop e s)\<lparr>children := c @ map (narrowed env) (d @ new)\<rparr>"
        using n2 unfolding b a dd by simp
      ultimately show ?thesis by blast
    qed
  qed
qed

text \<open>Where the shift record can be. After the first vertex, an attached polyline that
  carries a record is the polyline open at that moment, attached when its block is closed; a
  polyline opened later carries none.\<close>

lemma readLoop_record:
  assumes "\<not> firstVertex s"
  shows "\<exists>new. children (readLoop env s) = container s @ new \<and>
           (\<forall>q \<in> set new. globalShift q \<noteq> (0, 0, 0) \<longrightarrow>
              (\<exists>m u. block_state env m s = Some u \<and> closes_with env u q)) \<and>
           ((\<forall>p. currentPoly s = Some p \<longrightarrow> globalShift p = (0, 0, 0)) \<longrightarrow>
              (\<forall>q \<in> set new. globalShift q = (0, 0, 0)))"
  using assms
proof (induction env s rule: readLoop.induct)
  case (1 env s)
  note nf = "1.prems"
  show ?case
  proof (cases "currentLine s \<noteq> [] \<and> \<not> file_error env (streamPos s)")
    case False
    then have a: "readLoop env s = finish env s" by (subst readLoop.simps) auto
    have f1: "children (readLoop env s) = container s @ closing env s"
      unfolding a by (simp add: finish_fields)
    have f2: "\<exists>m u. block_state env m s = Some u \<and> closes_with env u q"
      if "q \<in> set (closing env s)" for q
    proof -
      from that closing_cases [of env s] have "closing env s = [q]" by auto
      with False have "block_state env 0 s = Some s \<and> closes_with env s q"
        by (auto simp: closes_with_def)
      then show ?thesis by blast
    qed
    have f3: "(\<forall>p. currentPoly s = Some p \<longrightarrow> globalShift p = (0, 0, 0)) \<longrightarrow>
              (\<forall>q \<in> set (closing env s). globalShift q = (0, 0, 0))"
      using closing_globalShift [of _ env s] by metis
    from f1 f2 f3 show ?thesis by blast
  next
    case True
    let ?r = "readLine s"
    have nfr: "\<not> firstVertex ?r" using nf by simp
    show ?thesis
    proof (cases "processLine env ?r")
      case (Return r)
      from processLine_Return [OF Return] have r: "children r = container s" by auto
      from True Return have a: "readLoop env s = r" by (subst readLoop.simps) simp
      have "children (readLoop env s) = container s @ []" unfolding a by (simp add: r)
      then show ?thesis by (intro exI [where x = "[]"]) simp
    next
      case (Continue t)
      from True Continue have a: "readLoop env s = readLoop env t"
        by (subst readLoop.simps) simp
      from firstVertex_stays_off(1) [OF Continue nfr] have nft: "\<not> firstVertex t" .
      from "1.IH" [OF True Continue nft]
      obtain new where n1: "children (readLoop env t) = container t @ new"
        and n2: "\<forall>q \<in> set new. globalShift q \<noteq> (0, 0, 0) \<longrightarrow>
              (\<exists>m u. block_state env m t = Some u \<and> closes_with env u q)"
        and n3: "(\<forall>p. currentPoly t = Some p \<longrightarrow> globalShift p = (0, 0, 0)) \<longrightarrow>
              (\<forall>q \<in> set new. globalShift q = (0, 0, 0))"
        by blast
      from processLine_globalShift [OF Continue nfr]
      have "(startsWith (currentLine ?r) ''B'' \<and> container t = container s @ closing env ?r \<and>
             (\<forall>p'. currentPoly t = Some p' \<longrightarrow> globalShift p' = (0, 0, 0))) \<or>
            (\<not> startsWith (currentLine ?r) ''B'' \<and> container t = container s \<and>
             (\<forall>p'. currentPoly t = Some p' \<longrightarrow>
                (\<exists>p. currentPoly ?r = Some p \<and> globalShift p' = globalShift p)))"
        by simp
      then show ?thesis
      proof (elim disjE conjE)
        assume b: "startsWith (currentLine ?r) ''B''"
          and ct: "container t = container s @ closing env ?r"
          and z: "\<forall>p'. currentPoly t = Some p' \<longrightarrow> globalShift p' = (0, 0, 0)"
        from z n3 have nz: "\<forall>q \<in> set new. globalShift q = (0, 0, 0)" by blast
        have c1: "children (readLoop env s) = container s @ (closing env ?r @ new)"
          unfolding a n1 ct by simp
        have c2: "\<exists>m u. block_state env m s = Some u \<and> closes_with env u q"
          if "q \<in> set (closing env ?r @ new)" and "globalShift q \<noteq> (0, 0, 0)" for q
        proof -
          from that nz have "q \<in> set (closing env ?r)" by auto
          with closing_cases [of env ?r] have "closing env ?r = [q]" by auto
          with True b have "block_state env 0 s = Some s \<and> closes_with env s q"
            by (simp add: closes_with_def)
          then show ?thesis by blast
        qed
        have c3: "(\<forall>p. currentPoly s = Some p \<longrightarrow> globalShift p = (0, 0, 0)) \<longrightarrow>
              (\<forall>q \<in> set (closing env ?r @ new). globalShift q = (0, 0, 0))"
        proof (intro impI ballI)
          fix q assume "\<forall>p. currentPoly s = Some p \<longrightarrow> globalShift p = (0, 0, 0)"
            and q: "q \<in> set (closing env ?r @ new)"
          with closing_globalShift [of _ env ?r]
          have "\<forall>q \<in> set (closing env ?r). globalShift q = (0, 0, 0)" by fastforce
          with nz q show "globalShift q = (0, 0, 0)" by auto
        qed
        from c1 c2 c3 show ?thesis by blast
      next
        assume b: "\<not> startsWith (currentLine ?r) ''B''"
          and ct: "container t = container s"
          and k: "\<forall>p'. currentPoly t = Some p' \<longrightarrow>
                    (\<exists>p. currentPoly ?r = Some p \<and> globalShift p' = globalShift p)"
        have c1: "children (readLoop env s) = container s @ new" unfolding a n1 ct by simp
        have c2: "\<exists>m u. block_state env m s = Some u \<and> closes_with env u q"
          if "q \<in> set new" and "globalShift q \<noteq> (0, 0, 0)" for q
        proof -
          from that n2 obtain m u where "block_state env m t = Some u"
            and r: "closes_with env u q" by blast
          with True b Continue have "block_state env (Suc m) s = Some u" by simp
          with r show ?thesis by blast
        qed
        have c3: "(\<forall>p. currentPoly s = Some p \<longrightarrow> globalShift p = (0, 0, 0)) \<longrightarrow>
              (\<forall>q \<in> set new. globalShift q = (0, 0, 0))"
        proof (intro impI)
          assume "\<forall>p. currentPoly s = Some p \<longrightarrow> globalShift p = (0, 0, 0)"
          with k have "\<forall>p. currentPoly t = Some p \<longrightarrow> globalShift p = (0, 0, 0)" by fastforce
          with n3 show "\<forall>q \<in> set new. globalShift q = (0, 0, 0)" by blast
        qed
        from c1 c2 c3 show ?thesis by blast
      qed
    qed
  qed
qed

lemma readLoop_first_record:
  assumes "before_first_vertex s"
  shows "\<exists>new. children (readLoop env s) = container s @ new \<and>
           (\<forall>q \<in> set new. globalShift q \<noteq> (0, 0, 0) \<longrightarrow>
              (\<exists>k s' t m u.
                 loop_state env k s = Some s' \<and> firstVertex s' \<and>
                 loop_state env (Suc 0) s' = Some t \<and> \<not> firstVertex t \<and>
                 block_state env m t = Some u \<and> closes_with env u q))"
  using assms
proof (induction env s rule: readLoop.induct)
  case (1 env s)
  note b = "1.prems"
  show ?case
  proof (cases "currentLine s \<noteq> [] \<and> \<not> file_error env (streamPos s)")
    case False
    then have a: "readLoop env s = finish env s" by (subst readLoop.simps) auto
    have "children (readLoop env s) = container s @ []"
      unfolding a by (simp add: finish_fields before_closing [OF b])
    then show ?thesis by (intro exI [where x = "[]"]) simp
  next
    case True
    let ?r = "readLine s"
    have br: "before_first_vertex ?r" using b by (simp add: before_readLine)
    show ?thesis
    proof (cases "processLine env ?r")
      case (Return r)
      from processLine_Return [OF Return] have r: "children r = container s" by auto
      from True Return have a: "readLoop env s = r" by (subst readLoop.simps) simp
      have "children (readLoop env s) = container s @ []" unfolding a by (simp add: r)
      then show ?thesis by (intro exI [where x = "[]"]) simp
    next
      case (Continue t)
      from True Continue have a: "readLoop env s = readLoop env t"
        by (subst readLoop.simps) simp
      from before_container [OF br Continue] have ct: "container t = container s" by simp
      from True Continue have one: "loop_state env (Suc 0) s = Some t" by simp
      from before_processLine [OF br Continue] show ?thesis
      proof
        assume bt: "before_first_vertex t"
        from "1.IH" [OF True Continue bt]
        obtain new where n1: "children (readLoop env t) = container t @ new"
          and n2: "\<forall>q \<in> set new. globalShift q \<noteq> (0, 0, 0) \<longrightarrow>
              (\<exists>k s' t' m u.
                 loop_state env k t = Some s' \<and> firstVertex s' \<and>
                 loop_state env (Suc 0) s' = Some t' \<and> \<not> firstVertex t' \<and>
                 block_state env m t' = Some u \<and> closes_with env u q)"
          by blast
        have c1: "children (readLoop env s) = container s @ new" unfolding a n1 ct by simp
        have c2: "\<exists>k s' t' m u.
                 loop_state env k s = Some s' \<and> firstVertex s' \<and>
                 loop_state env (Suc 0) s' = Some t' \<and> \<not> firstVertex t' \<and>
                 block_state env m t' = Some u \<and> closes_with env u q"
          if "q \<in> set new" and "globalShift q \<noteq> (0, 0, 0)" for q
        proof -
          from that n2 obtain k s' t' m u where l: "loop_state env k t = Some s'"
            and r: "firstVertex s'" "loop_state env (Suc 0) s' = Some t'" "\<not> firstVertex t'"
              "block_state env m t' = Some u" "closes_with env u q"
            by blast
          from l True Continue have "loop_state env (Suc k) s = Some s'" by simp
          with r show ?thesis by blast
        qed
        from c1 c2 show ?thesis by blast
      next
        assume nft: "\<not> firstVertex t"
        from readLoop_record [OF nft, of env]
        obtain new where n1: "children (readLoop env t) = container t @ new"
          and n2: "\<forall>q \<in> set new. globalShift q \<noteq> (0, 0, 0) \<longrightarrow>
              (\<exists>m u. block_state env m t = Some u \<and> closes_with env u q)"
          by blast
        have fs: "firstVertex s" using b by (simp add: before_first_vertex_def)
        have c1: "children (readLoop env s) = container s @ new" unfolding a n1 ct by simp
        have c2: "\<exists>k s' t' m u.
                 loop_state env k s = Some s' \<and> firstVertex s' \<and>
                 loop_state env (Suc 0) s' = Some t' \<and> \<not> firstVertex t' \<and>
                 block_state env m t' = Some u \<and> closes_with env u q"
          if "q \<in> set new" and "globalShift q \<noteq> (0, 0, 0)" for q
        proof -
          from that n2 obtain m u where r: "block_state env m t = Some u"
            "closes_with env u q" by blast
          have "loop_state env 0 s = Some s" by simp
          with fs one nft r show ?thesis by blast
        qed
        from c1 c2 show ?thesis by blast
      qed
    qed
  qed
qed

lemma translate_without_shift:
  "translate sh (without_shift sh p) = p\<lparr>globalShift := (0, 0, 0)\<rparr>"
  by (simp add: translate_def without_shift_def comp_def)

lemma narrowed_translate_without_shift:
  "narrowed env (translate sh (without_shift sh p)) = (narrowed env p)\<lparr>globalShift := (0, 0, 0)\<rparr>"
  by (simp add: translate_without_shift)

text \<open>
  C10. Compare a load with the same load on the platform with recentering switched off and
  without rounding, which stores the coordinates as they are read and records no shift
  (\<open>raw\<close> below). The two loads attach the same number of polylines, and there is one shift
  \<open>sh\<close> such that every polyline attached by the load is, apart from its shift record, the
  polyline of the other load with every vertex translated by \<open>sh\<close> and then converted to
  \<^verbatim>\<open>PointCoordinateType\<close>, as line 419 does. A shift record, when there is one, holds \<open>sh\<close>.
  No attached polyline but the first has a record, and an attached polyline with a record is
  the polyline that was open when the first vertex of the load was parsed: the load reaches
  a state \<open>s\<close> before the first vertex whose next pass parses it and leads to \<open>t\<close>; from \<open>t\<close>
  the loop reaches, without reading a block header, the state \<open>u\<close> at which that block is
  closed, and what this close attaches is the polyline in question. In particular, when the
  polyline open at the first vertex fails to be finalized, no attached polyline has a
  record.
\<close>

theorem C10_one_shift_record_per_load:
  "\<exists>sh new raw.
     children (loadFile env children0 ls) = children0 @ new \<and>
     children (loadFile (unshifted (exact env)) children0 ls) = children0 @ raw \<and>
     map (\<lambda>p. p\<lparr>globalShift := (0, 0, 0)\<rparr>) new = map (\<lambda>p. narrowed env (translate sh p)) raw \<and>
     (\<forall>q \<in> set raw. globalShift q = (0, 0, 0)) \<and>
     (\<forall>q \<in> set new. globalShift q = sh \<or> globalShift q = (0, 0, 0)) \<and>
     (\<forall>q \<in> set (tl new). globalShift q = (0, 0, 0)) \<and>
     (\<forall>q \<in> set new. globalShift q \<noteq> (0, 0, 0) \<longrightarrow>
        (\<exists>k s t m u.
           loop_state env k (initial_state children0 ls) = Some s \<and> firstVertex s \<and>
           loop_state env (Suc 0) s = Some t \<and> \<not> firstVertex t \<and>
           block_state env m t = Some u \<and> closes_with env u q))"
proof (cases "file_open env")
  case False
  then have "children (loadFile env children0 ls) = children0 @ []"
    and "children (loadFile (unshifted (exact env)) children0 ls) = children0 @ []"
    by (simp_all add: loadFile_def)
  then show ?thesis
    by (intro exI [where x = "(0, 0, 0)"] exI [where x = "[]"]) simp
next
  case True
  let ?i = "initial_state children0 ls"
  let ?e = "exact env"
  have bi: "before_first_vertex ?i" by (simp add: before_first_vertex_def initial_state_def)
  have ci: "container ?i = children0" by (simp add: initial_state_def)
  have ex: "fromDouble ?e = (\<lambda>x. x)" by simp
  from readLoop_before [OF bi ex] obtain sh mid
    where a0: "children (readLoop ?e ?i) = container ?i @ mid"
      and u0: "readLoop (unshifted ?e) ?i =
             \<lparr>status = status (readLoop ?e ?i),
              children = container ?i @ map (without_shift sh) mid,
              messages = filter is_corruption (messages (readLoop ?e ?i)),
              aborted = aborted (readLoop ?e ?i)\<rparr>"
      and g: "\<forall>q \<in> set mid. globalShift q = sh \<or> globalShift q = (0, 0, 0)"
      and h: "\<forall>q \<in> set (tl mid). globalShift q = (0, 0, 0)"
    by blast
  have ni: "narrowed_state env children0 ?i = ?i"
    by (simp add: narrowed_state_def initial_state_def)
  from readLoop_narrowed [OF refl, of env ?i children0] a0
  have "readLoop env (narrowed_state env children0 ?i) =
          (readLoop ?e ?i)\<lparr>children := children0 @ map (narrowed env) mid\<rparr>" by auto
  then have n0: "children (readLoop env ?i) = children0 @ map (narrowed env) mid"
    unfolding ni by simp
  from readLoop_first_record [OF bi, of env] n0 ci
  have ev: "\<forall>q \<in> set (map (narrowed env) mid). globalShift q \<noteq> (0, 0, 0) \<longrightarrow>
        (\<exists>k s t m u.
           loop_state env k ?i = Some s \<and> firstVertex s \<and>
           loop_state env (Suc 0) s = Some t \<and> \<not> firstVertex t \<and>
           block_state env m t = Some u \<and> closes_with env u q)"
    by auto
  have c1: "children (loadFile env children0 ls) = children0 @ map (narrowed env) mid"
    using True n0 by (simp add: loadFile_def)
  from True have "loadFile (unshifted ?e) children0 ls = readLoop (unshifted ?e) ?i"
    by (simp add: loadFile_def)
  then have c2: "children (loadFile (unshifted ?e) children0 ls) =
                 children0 @ map (without_shift sh) mid"
    unfolding u0 ci by simp
  have c3: "map (\<lambda>p. p\<lparr>globalShift := (0, 0, 0)\<rparr>) (map (narrowed env) mid) =
            map (\<lambda>p. narrowed env (translate sh p)) (map (without_shift sh) mid)"
    by (simp add: narrowed_translate_without_shift)
  have c4: "\<forall>q \<in> set (map (without_shift sh) mid). globalShift q = (0, 0, 0)" by simp
  have c5: "\<forall>q \<in> set (map (narrowed env) mid). globalShift q = sh \<or> globalShift q = (0, 0, 0)"
    using g by simp
  have c6: "\<forall>q \<in> set (tl (map (narrowed env) mid)). globalShift q = (0, 0, 0)"
    using h by (simp add: map_tl [symmetric])
  from c1 c2 c3 c4 c5 c6 ev show ?thesis by blast
qed

lemma two_elements: "length xs = 2 \<Longrightarrow> \<exists>p q. xs = [p, q]"
  by (cases xs; cases "tl xs") auto

theorem C10_witness:
  "map (points \<circ> vertices)
     (children (loadFile sample_platform []
        [''B S'', ''1000000 0 0 A'', ''1000001 0 0 A'', ''B S'', ''1000002 0 0 A''])) =
     [[(0, 0, 0), (1, 0, 0)], [(2, 0, 0)]] \<and>
   map (points \<circ> vertices)
     (children (loadFile (unshifted (exact sample_platform)) []
        [''B S'', ''1000000 0 0 A'', ''1000001 0 0 A'', ''B S'', ''1000002 0 0 A''])) =
     [[(1000000, 0, 0), (1000001, 0, 0)], [(1000002, 0, 0)]] \<and>
   map globalShift
     (children (loadFile sample_platform []
        [''B S'', ''1000000 0 0 A'', ''1000001 0 0 A'', ''B S'', ''1000002 0 0 A''])) =
     [(- 1000000, 0, 0), (0, 0, 0)]"
proof -
  let ?L = "[''B S'', ''1000000 0 0 A'', ''1000001 0 0 A'', ''B S'', ''1000002 0 0 A'']"
  define c where "c = children (loadFile sample_platform [] ?L)"
  have a: "map (points \<circ> vertices) c = [[(0, 0, 0), (1, 0, 0)], [(2, 0, 0)]]"
    unfolding c_def by (simp add: sample_run)
  have b: "map (points \<circ> vertices)
             (children (loadFile (unshifted (exact sample_platform)) [] ?L)) =
             [[(1000000, 0, 0), (1000001, 0, 0)], [(1000002, 0, 0)]]"
    by (simp add: unshifted_def exact_def sample_run)
  have h: "globalShift (hd c) = (- 1000000, 0, 0)" unfolding c_def by (simp add: sample_run)
  have "length (map (points \<circ> vertices) c) = 2" by (simp only: a) simp
  then have len: "length c = 2" by simp
  from C10_one_shift_record_per_load [of sample_platform "[]" ?L]
  obtain new where n: "c = [] @ new" and z: "\<forall>q \<in> set (tl new). globalShift q = (0, 0, 0)"
    unfolding c_def by blast
  from two_elements [OF len] obtain p q where pq: "c = [p, q]" by blast
  from n pq have "new = [p, q]" by simp
  with z have "globalShift q = (0, 0, 0)" by simp
  with pq h have "map globalShift c = [(- 1000000, 0, 0), (0, 0, 0)]" by simp
  with a b show ?thesis unfolding c_def by blast
qed

end
